theory Spec2Isabelle
  imports Complex_Main "HOL-Library.Multiset"
begin

section \<open>ENIMDA: entropy-based border detection\<close>

text \<open>
  A shallow embedding of \<^verbatim>\<open>enimda.py\<close>. Python floats are read as real numbers and
  Python integers as \<^typ>\<open>int\<close>. Every exception the code can raise is a value of
  \<open>error\<close>; a function that can raise returns \<open>error + 'a\<close>, with \<open>Inl\<close> for the
  exception.

  The scanning method refers to three names that the file neither defines nor imports:
  \<^verbatim>\<open>np\<close>, \<^verbatim>\<open>_entropy\<close> and \<^verbatim>\<open>_randoms\<close>. They are read as NumPy, as the module's
  entropy function, and as a column sampler that is a parameter of the model. The
  attribute \<^verbatim>\<open>self.__converted\<close> is read and never assigned by the file: it is part of
  the state of an instance, and reading it while it is not set raises AttributeError.

  Inside the class body a name that starts with two underscores is mangled: there
  \<^verbatim>\<open>__frames\<close> stands for \<^verbatim>\<open>_ENIMDA__frames\<close>, and the call \<^verbatim>\<open>__randoms(...)\<close> in
  the constructor looks up the global name \<^verbatim>\<open>_ENIMDA__randoms\<close>, not the function
  \<^verbatim>\<open>__randoms\<close> that the file defines at the top level. The global names are a
  parameter of the constructor, and the ones the file binds are given.
\<close>

datatype error =
  ZeroDivisionError | ValueError | KeyError | UnboundLocalError | IndexError | AttributeError
  | NameError

subsection \<open>Arithmetic that can raise\<close>

text \<open>\<^verbatim>\<open>a / b\<close> raises ZeroDivisionError when \<open>b\<close> is zero.\<close>

definition truediv :: "real \<Rightarrow> real \<Rightarrow> error + real" where
  "truediv a b = (if b = 0 then Inl ZeroDivisionError else Inr (a / b))"

text \<open>\<^verbatim>\<open>math.log2\<close> raises ValueError outside the positive numbers.\<close>

definition log2 :: "real \<Rightarrow> error + real" where
  "log2 x = (if x \<le> 0 then Inl ValueError else Inr (log 2 x))"

text \<open>
  Python 3 \<^verbatim>\<open>round\<close> with one argument returns an integer and rounds a tie to the
  even neighbour.
\<close>

definition py_round :: "real \<Rightarrow> int" where
  "py_round x =
     (let f = \<lfloor>x\<rfloor>; d = x - of_int f
      in if d < 1 / 2 then f else if 1 / 2 < d then f + 1 else if even f then f else f + 1)"

text \<open>
  \<^verbatim>\<open>xs[i:j]\<close>: a negative bound counts from the end, and both bounds are clamped to
  the sequence. NumPy slices an axis the same way.
\<close>

definition py_slice :: "int \<Rightarrow> int \<Rightarrow> 'a list \<Rightarrow> 'a list" where
  "py_slice i j xs =
     (let n = int (length xs);
          lo = (if i < 0 then max (i + n) 0 else min i n);
          hi = (if j < 0 then max (j + n) 0 else min j n)
      in take (nat (hi - lo)) (drop (nat lo) xs))"

subsection \<open>Entropy estimator\<close>

text \<open>
  \<^verbatim>\<open>Counter(signal)\<close> counts each value while it walks the signal.
\<close>

definition Counter :: "'a list \<Rightarrow> ('a \<rightharpoonup> nat)" where
  "Counter signal =
     foldl (\<lambda>counts value. counts(value \<mapsto> (case counts value of None \<Rightarrow> 1 | Some c \<Rightarrow> c + 1)))
       Map.empty signal"

text \<open>
  \<^verbatim>\<open>sum(...)\<close> over a generator: the terms are computed one at a time, and the first
  one that raises ends the sum.
\<close>

fun sum_terms :: "('a \<Rightarrow> error + real) \<Rightarrow> 'a list \<Rightarrow> real \<Rightarrow> error + real" where
  "sum_terms term [] acc = Inr acc"
| "sum_terms term (v # vs) acc =
     (case term v of Inl e \<Rightarrow> Inl e | Inr t \<Rightarrow> sum_terms term vs (acc + t))"

text \<open>
  \<^verbatim>\<open>__entropy\<close>. The distinct values \<^verbatim>\<open>set(signal)\<close> are visited in the order of
  \<^const>\<open>remdups\<close>; over the reals the sum does not depend on the order. For each value
  the probability is a division by the signal's length, and its term takes
  \<^verbatim>\<open>log2(1.0 / prob)\<close>.
\<close>

definition entropy :: "'a list \<Rightarrow> error + real" where
  "entropy signal =
     (let counts = Counter signal in
      sum_terms
        (\<lambda>value.
           case counts value of
             None \<Rightarrow> Inl KeyError
           | Some c \<Rightarrow>
               (case truediv (real c) (real (length signal)) of
                  Inl e \<Rightarrow> Inl e
                | Inr prob \<Rightarrow>
                    (case truediv 1 prob of
                       Inl e \<Rightarrow> Inl e
                     | Inr q \<Rightarrow> (case log2 q of Inl e \<Rightarrow> Inl e | Inr l \<Rightarrow> Inr (prob * l)))))
        (remdups signal) 0)"

text \<open>
  The specification's words: with \<open>p v = count v / length signal\<close>, the entropy is the
  sum over the distinct values of \<open>p v * log2 (1 / p v)\<close>.
\<close>

definition shannon :: "'a list \<Rightarrow> real" where
  "shannon signal =
     (\<Sum>v\<in>set signal.
        (real (count_list signal v) / real (length signal)) *
        log 2 (1 / (real (count_list signal v) / real (length signal))))"

subsection \<open>Random subset selector\<close>

text \<open>
  \<^verbatim>\<open>__randoms\<close>. \<^verbatim>\<open>random.shuffle\<close> is the parameter \<open>shuffle\<close>: the permutation that
  the generator picks at this call. \<^verbatim>\<open>randoms[:limit]\<close> is the slice from the start
  to \<open>limit\<close>. The result is a set, as in the source.
\<close>

definition randoms :: "(int list \<Rightarrow> int list) \<Rightarrow> int \<Rightarrow> int option \<Rightarrow> int set" where
  "randoms shuffle count' limit =
     (let randoms = [0..count' - 1]
      in case limit of
           None \<Rightarrow> set randoms
         | Some l \<Rightarrow> set (py_slice 0 l (shuffle randoms)))"

subsection \<open>Side scanner\<close>

text \<open>
  A two-dimensional array is the list of its rows. \<^verbatim>\<open>rot[a:b, 0:w].flatten()\<close> slices
  the rows and lays them out row after row; the column slice \<^verbatim>\<open>0:w\<close> spans all \<open>w\<close>
  columns and keeps every row whole.
\<close>

definition region :: "'a list list \<Rightarrow> int \<Rightarrow> int \<Rightarrow> 'a list" where
  "region rot a b = concat (py_slice a b rot)"

text \<open>
  The first \<^verbatim>\<open>for\<close> loop. \<open>start\<close> is the loop variable: \<open>None\<close> while it is unbound.
  A loop over no candidate leaves it as it was; a loop that does not break leaves it at
  the last candidate.
\<close>

fun find_start :: "'a list list \<Rightarrow> int \<Rightarrow> int list \<Rightarrow> int option \<Rightarrow> error + int option" where
  "find_start rot border [] start = Inr start"
| "find_start rot border (s # rest) start =
     (case entropy (region rot border s) of
        Inl e \<Rightarrow> Inl e
      | Inr e \<Rightarrow> if 0 < e then Inr (Some s) else find_start rot border rest (Some s))"

text \<open>
  The second \<^verbatim>\<open>for\<close> loop, over the centers in the order given, with the running
  \<open>subborder\<close> and \<open>delta\<close>.
\<close>

fun find_subborder ::
  "'a list list \<Rightarrow> int \<Rightarrow> real \<Rightarrow> int list \<Rightarrow> int \<Rightarrow> real \<Rightarrow> error + int \<times> real" where
  "find_subborder rot border threshold [] subborder delta = Inr (subborder, delta)"
| "find_subborder rot border threshold (center # rest) subborder delta =
     (case entropy (region rot border center) of
        Inl e \<Rightarrow> Inl e
      | Inr upper \<Rightarrow>
          (case entropy (region rot center (2 * center - border)) of
             Inl e \<Rightarrow> Inl e
           | Inr lower \<Rightarrow>
               (case (if lower \<noteq> 0 then truediv upper lower else Inr delta) of
                  Inl e \<Rightarrow> Inl e
                | Inr diff \<Rightarrow>
                    if diff < delta \<and> diff < threshold
                    then find_subborder rot border threshold rest center diff
                    else find_subborder rot border threshold rest subborder delta)))"

text \<open>
  One pass through the body of \<^verbatim>\<open>while True\<close>: it either breaks with the border
  unchanged, or assigns the new border. \<open>Stop\<close> and \<open>Again\<close> carry the border and the
  value \<open>start\<close> holds after the pass. Reading \<open>start\<close> while it is unbound raises
  UnboundLocalError.
\<close>

datatype outcome = Stop int int | Again int int

definition top_row :: "'a list list \<Rightarrow> real \<Rightarrow> int" where
  "top_row rot indent = py_round (indent * real (length rot))"

definition iteration :: "'a list list \<Rightarrow> real \<Rightarrow> real \<Rightarrow> int \<Rightarrow> int option \<Rightarrow> error + outcome" where
  "iteration rot threshold indent border start =
     (case find_start rot border [border + 1..top_row rot indent] start of
        Inl e \<Rightarrow> Inl e
      | Inr None \<Rightarrow> Inl UnboundLocalError
      | Inr (Some start') \<Rightarrow>
          (case find_subborder rot border threshold (rev [start'..top_row rot indent]) 0 threshold of
             Inl e \<Rightarrow> Inl e
           | Inr (subborder, delta) \<Rightarrow>
               if subborder = 0 \<or> border = subborder then Inr (Stop border start')
               else Inr (Again subborder start')))"

text \<open>
  What a pass that goes on has established, used to show that the loop ends.
\<close>

lemma find_start_result:
  "find_start rot border cs start = Inr r \<Longrightarrow>
     (cs = [] \<and> r = start) \<or> (\<exists>s. s \<in> set cs \<and> r = Some s)"
  by (induction cs arbitrary: start) (auto split: sum.splits if_splits)

lemma find_subborder_result:
  "find_subborder rot border threshold cs subborder delta = Inr (sb, d) \<Longrightarrow>
     sb = subborder \<or> sb \<in> set cs"
  by (induction cs arbitrary: subborder delta) (auto split: sum.splits if_splits)

lemma iteration_Again:
  assumes "iteration rot threshold indent border start = Inr (Again b s)"
  shows "b \<noteq> 0 \<and> b \<noteq> border \<and> s \<le> b \<and> b \<le> top_row rot indent
       \<and> (if border < top_row rot indent then border < s else start = Some s)"
proof -
  from assms obtain d where
    fs: "find_start rot border [border + 1..top_row rot indent] start = Inr (Some s)" and
    fb: "find_subborder rot border threshold (rev [s..top_row rot indent]) 0 threshold = Inr (b, d)" and
    nz: "b \<noteq> 0" and nb: "b \<noteq> border"
    unfolding iteration_def
    by (auto split: sum.splits option.splits prod.splits if_splits)
  from find_subborder_result [OF fb] nz have "b \<in> set (rev [s..top_row rot indent])" by simp
  then have range: "s \<le> b \<and> b \<le> top_row rot indent" by simp
  from find_start_result [OF fs]
  have "if border < top_row rot indent then border < s else start = Some s"
    by (auto split: if_splits)
  with nz nb range show ?thesis by simp
qed

text \<open>
  The \<^verbatim>\<open>while True\<close> loop. With \<open>fast\<close> it breaks after the first new border. The
  result is the border together with the value of \<open>start\<close> when the loop is left:
  \<open>start\<close> is a local variable of the method and is still bound when the next side is
  scanned.

  The loop ends from every state, reachable or not. Below \<open>round (indent * h)\<close> a
  pass that goes on raises the border, and the next start lies above the old border.
  At \<open>round (indent * h)\<close> or above, the first loop has no candidate, the pass reuses
  the old start and the new border lies between that start and \<open>round (indent * h)\<close>,
  so it may be lower than the old border; but the start of the pass after it lies above
  that new border. The measure is lexicographic: the distance from the least possible
  next start to \<open>round (indent * h)\<close>, then whether the border is below
  \<open>round (indent * h)\<close>, then the excess of the border over it.
\<close>

function search ::
  "'a list list \<Rightarrow> real \<Rightarrow> real \<Rightarrow> bool \<Rightarrow> int \<Rightarrow> int option \<Rightarrow> error + int \<times> int" where
  "search rot threshold indent fast border start =
     (case iteration rot threshold indent border start of
        Inl e \<Rightarrow> Inl e
      | Inr (Stop b s) \<Rightarrow> Inr (b, s)
      | Inr (Again b s) \<Rightarrow>
          if fast then Inr (b, s) else search rot threshold indent fast b (Some s))"
  by pat_completeness auto
termination
proof (relation "measures
    [\<lambda>(rot, threshold, indent, fast, border, start).
        nat (top_row rot indent -
          (if border < top_row rot indent then border + 1
           else (case start of None \<Rightarrow> top_row rot indent | Some s \<Rightarrow> s))),
     \<lambda>(rot, threshold, indent, fast, border, start).
        (if border < top_row rot indent then 1 else 0),
     \<lambda>(rot, threshold, indent, fast, border, start). nat (border - top_row rot indent)]",
    goal_cases)
  case 1
  show ?case by simp
next
  case 2
  then show ?case
    by (auto dest!: iteration_Again split: if_splits)
qed

declare search.simps [simp del]

text \<open>
  The setup of a side: \<^verbatim>\<open>np.rot90\<close>, the sampled columns \<^verbatim>\<open>rot[0:h, r:r + 1]\<close> and
  \<^verbatim>\<open>np.hstack\<close>, which raises ValueError on an empty list of arrays. The sampler
  \<^verbatim>\<open>_randoms\<close> is a parameter: the list of columns it yields, in the order the loop
  visits them, for the frame and side of the call and for its three arguments.
\<close>

definition width :: "'a list list \<Rightarrow> nat" where
  "width a = (case a of [] \<Rightarrow> 0 | row # _ \<Rightarrow> length row)"

definition rot90 :: "'a list list \<Rightarrow> nat \<Rightarrow> 'a list list" where
  "rot90 m k =
     (if k mod 4 = 0 then m
      else if k mod 4 = 2 then map rev (rev m)
      else if k mod 4 = 1 then transpose (map rev m)
      else map rev (transpose m))"

definition column_slice :: "'a list list \<Rightarrow> int \<Rightarrow> 'a list list" where
  "column_slice rot r = map (py_slice r (r + 1)) (py_slice 0 (int (length rot)) rot)"

definition hstack :: "'a list list list \<Rightarrow> error + 'a list list" where
  "hstack arrs =
     (case arrs of
        [] \<Rightarrow> Inl ValueError
      | a # _ \<Rightarrow> Inr (map (\<lambda>i. concat (map (\<lambda>b. b ! i) arrs)) [0..<length a]))"

text \<open>A \<^verbatim>\<open>for\<close> loop that appends one result per item and stops at the first exception.\<close>

fun collect :: "('a \<Rightarrow> error + 'b) \<Rightarrow> 'a list \<Rightarrow> error + 'b list" where
  "collect f [] = Inr []"
| "collect f (x # xs) =
     (case f x of
        Inl e \<Rightarrow> Inl e
      | Inr y \<Rightarrow> (case collect f xs of Inl e \<Rightarrow> Inl e | Inr ys \<Rightarrow> Inr (y # ys)))"

type_synonym sampler = "nat \<Rightarrow> nat \<Rightarrow> int \<Rightarrow> int \<Rightarrow> int option \<Rightarrow> int list"

text \<open>
  The body of \<^verbatim>\<open>for side in range(4)\<close>, from the rotation to the end of the
  \<^verbatim>\<open>while\<close> loop. \<open>start\<close> is the value the local variable has when the side is
  entered; the result is the border that is appended and the value of \<open>start\<close> when
  the side is left.
\<close>

definition scan_side ::
  "sampler \<Rightarrow> 'a list list \<Rightarrow> nat \<Rightarrow> real \<Rightarrow> real \<Rightarrow> int \<Rightarrow> int option \<Rightarrow> bool \<Rightarrow> nat \<Rightarrow>
     int option \<Rightarrow> error + int \<times> int" where
  "scan_side randoms' arr frame threshold indent paginate max_stripes fast side start =
     (let rot = rot90 arr side;
          w = int (width rot)
      in case hstack (map (column_slice rot) (randoms' frame side w paginate max_stripes)) of
           Inl e \<Rightarrow> Inl e
         | Inr rot' \<Rightarrow> search rot' threshold indent fast 0 start)"

text \<open>
  The loop over the sides: each border is appended to \<open>borders\<close>, and \<open>start\<close> goes
  from one side to the next. An exception ends the loop.
\<close>

fun scan_sides ::
  "(nat \<Rightarrow> int option \<Rightarrow> error + int \<times> int) \<Rightarrow> nat list \<Rightarrow> int option \<Rightarrow> error + int list" where
  "scan_sides side_scan [] start = Inr []"
| "scan_sides side_scan (side # rest) start =
     (case side_scan side start of
        Inl e \<Rightarrow> Inl e
      | Inr (border, start') \<Rightarrow>
          (case scan_sides side_scan rest (Some start') of
             Inl e \<Rightarrow> Inl e
           | Inr borders \<Rightarrow> Inr (border # borders)))"

text \<open>
  The two attributes of an instance that the scan touches: \<^verbatim>\<open>self.__converted\<close>, the
  list of frames as arrays, and \<^verbatim>\<open>self.__borders\<close>. \<open>None\<close> stands for an attribute
  that is not set. The constructor touches two other attributes, \<^verbatim>\<open>__multiplier\<close> and
  \<^verbatim>\<open>__frames\<close>; they are modelled with the constructor.
\<close>

record 'a ENIMDA =
  ENIMDA_converted :: "'a list list list option"
  ENIMDA_borders :: "int list list option"

text \<open>
  \<^verbatim>\<open>__scan_frame\<close>. When the method is entered \<open>start\<close> is unbound. The result is the
  tuple of the four borders.
\<close>

definition scan_frame ::
  "sampler \<Rightarrow> 'a ENIMDA \<Rightarrow> nat \<Rightarrow> real \<Rightarrow> real \<Rightarrow> real \<Rightarrow> int option \<Rightarrow> bool \<Rightarrow> error + int list" where
  "scan_frame randoms' self frame threshold indent stripes max_stripes fast =
     (case ENIMDA_converted self of
        None \<Rightarrow> Inl AttributeError
      | Some converted \<Rightarrow>
          if frame < length converted
          then let arr = converted ! frame;
                   paginate = (if 0 < stripes \<and> stripes < 1 then py_round (1 / stripes) else 1)
               in scan_sides (scan_side randoms' arr frame threshold indent paginate max_stripes fast)
                    [0, 1, 2, 3] None
          else Inl IndexError)"

text \<open>
  \<^verbatim>\<open>scan\<close>. The method returns \<^verbatim>\<open>None\<close>; what it does is to assign the tuple of the
  frames' borders to \<^verbatim>\<open>self.__borders\<close>, so the result is the instance after the call.
\<close>

definition scan ::
  "sampler \<Rightarrow> 'a ENIMDA \<Rightarrow> real \<Rightarrow> real \<Rightarrow> real \<Rightarrow> int option \<Rightarrow> bool \<Rightarrow> error + 'a ENIMDA" where
  "scan randoms' self threshold indent stripes max_stripes fast =
     (case ENIMDA_converted self of
        None \<Rightarrow> Inl AttributeError
      | Some converted \<Rightarrow>
          (case collect (\<lambda>f. scan_frame randoms' self f threshold indent stripes max_stripes fast)
                  [0..<length converted] of
             Inl e \<Rightarrow> Inl e
           | Inr borders \<Rightarrow> Inr (self\<lparr>ENIMDA_borders := Some borders\<rparr>)))"

subsection \<open>Constructor\<close>

text \<open>
  Objects and attributes. A value is a float or a reference to a list object; the heap
  holds the list objects by address, the attributes of the class \<^verbatim>\<open>ENIMDA\<close> and, for
  each instance, the attributes of its own.
\<close>

datatype val = Float real | Ref nat

record 'f heap =
  list_objs :: "nat \<rightharpoonup> 'f list"
  class_dict :: "string \<rightharpoonup> val"
  inst_dict :: "nat \<Rightarrow> string \<rightharpoonup> val"

text \<open>
  What \<^verbatim>\<open>Image.open\<close> gives: the size and the frames of the file. \<^verbatim>\<open>seek(n)\<close> raises
  EOFError when the file has no frame \<open>n\<close>.
\<close>

record 'p image =
  img_width :: int
  img_height :: int
  img_pages :: "'p list"

text \<open>
  \<^verbatim>\<open>self.name\<close> reads the instance's own attribute and falls back to the class's.
  \<^verbatim>\<open>self.name = v\<close> writes the instance's own attribute. \<^verbatim>\<open>.append(x)\<close> changes the
  list object in place.
\<close>

definition getattr :: "'f heap \<Rightarrow> nat \<Rightarrow> string \<Rightarrow> error + val" where
  "getattr s self name =
     (case inst_dict s self name of
        Some v \<Rightarrow> Inr v
      | None \<Rightarrow> (case class_dict s name of Some v \<Rightarrow> Inr v | None \<Rightarrow> Inl AttributeError))"

definition setattr :: "'f heap \<Rightarrow> nat \<Rightarrow> string \<Rightarrow> val \<Rightarrow> 'f heap" where
  "setattr s self name v = s\<lparr>inst_dict := (inst_dict s)(self := (inst_dict s self)(name \<mapsto> v))\<rparr>"

definition append_to :: "'f heap \<Rightarrow> val \<Rightarrow> 'f \<Rightarrow> error + 'f heap" where
  "append_to s target x =
     (case target of
        Float _ \<Rightarrow> Inl AttributeError
      | Ref r \<Rightarrow>
          (case list_objs s r of
             None \<Rightarrow> Inl AttributeError
           | Some xs \<Rightarrow> Inr (s\<lparr>list_objs := (list_objs s)(r \<mapsto> xs @ [x])\<rparr>)))"

text \<open>
  The class statement: \<^verbatim>\<open>__multiplier = 1.0\<close> and \<^verbatim>\<open>__frames = []\<close> are attributes of
  the class, under their mangled names; the list is one object, at address 0. No
  instance has an attribute of its own yet.
\<close>

definition class_body :: "'f heap" where
  "class_body =
     \<lparr>list_objs = [0 \<mapsto> []],
      class_dict = [''_ENIMDA__multiplier'' \<mapsto> Float 1, ''_ENIMDA__frames'' \<mapsto> Ref 0],
      inst_dict = (\<lambda>_. Map.empty)\<rparr>"

text \<open>
  The frames an instance observes: the list that \<^verbatim>\<open>self.__frames\<close> refers to.
\<close>

definition frames_of :: "'f heap \<Rightarrow> nat \<Rightarrow> error + 'f list" where
  "frames_of s self =
     (case getattr s self ''_ENIMDA__frames'' of
        Inl e \<Rightarrow> Inl e
      | Inr (Float _) \<Rightarrow> Inl AttributeError
      | Inr (Ref r) \<Rightarrow> (case list_objs s r of None \<Rightarrow> Inl AttributeError | Some xs \<Rightarrow> Inr xs))"

text \<open>
  The first \<^verbatim>\<open>while True\<close> loop of the constructor, for a file of \<open>n\<close> frames:
  \<open>frame_count\<close> grows until \<^verbatim>\<open>seek\<close> raises EOFError.
\<close>

function count_frames :: "nat \<Rightarrow> nat \<Rightarrow> nat" where
  "count_frames n frame_count =
     (if frame_count + 1 < n then count_frames n (frame_count + 1) else frame_count + 1)"
  by pat_completeness auto
termination
  by (relation "measure (\<lambda>(n, frame_count). n - frame_count)") auto

declare count_frames.simps [simp del]

text \<open>
  The branch \<^verbatim>\<open>if size is not None\<close>: the new width and height and the multiplier,
  when the image exceeds \<open>size\<close>.
\<close>

definition resized :: "'p image \<Rightarrow> int \<Rightarrow> error + ((int \<times> int) \<times> real) option" where
  "resized img size' =
     (if img_width img > size' \<or> img_height img > size' then
        if img_width img > img_height img then
          (case truediv (of_int (size' * img_height img)) (of_int (img_width img)) of
             Inl e \<Rightarrow> Inl e
           | Inr q \<Rightarrow>
               (case truediv (of_int (img_width img)) (of_int size') of
                  Inl e \<Rightarrow> Inl e
                | Inr m \<Rightarrow> Inr (Some ((size', py_round q), m))))
        else if img_width img < img_height img then
          (case truediv (of_int (size' * img_width img)) (of_int (img_height img)) of
             Inl e \<Rightarrow> Inl e
           | Inr q \<Rightarrow>
               (case truediv (of_int (img_height img)) (of_int size') of
                  Inl e \<Rightarrow> Inl e
                | Inr m \<Rightarrow> Inr (Some ((py_round q, size'), m))))
        else
          (case truediv (of_int (img_width img)) (of_int size') of
             Inl e \<Rightarrow> Inl e
           | Inr m \<Rightarrow> Inr (Some ((size', size'), m)))
      else Inr None)"

text \<open>
  The \<^verbatim>\<open>for frame in range(frame_count)\<close> loop. \<open>dims\<close> holds \<^verbatim>\<open>width\<close> and
  \<^verbatim>\<open>height\<close>, unbound when the image was not resized. \<^verbatim>\<open>resize\<close> and
  \<^verbatim>\<open>convert('L')\<close> belong to the imaging library and are parameters.
\<close>

fun load ::
  "(int \<times> int \<Rightarrow> 'p \<Rightarrow> 'p) \<Rightarrow> ('p \<Rightarrow> 'f) \<Rightarrow> 'p image \<Rightarrow> (int \<times> int) option \<Rightarrow> int set \<Rightarrow>
     nat \<Rightarrow> nat list \<Rightarrow> 'f heap \<Rightarrow> error + 'f heap" where
  "load resize convert img dims frame_set self [] s = Inr s"
| "load resize convert img dims frame_set self (frame # rest) s =
     (if length (img_pages img) \<le> frame then Inr s
      else if int frame \<notin> frame_set then load resize convert img dims frame_set self rest s
      else
        (case getattr s self ''_ENIMDA__multiplier'' of
           Inl e \<Rightarrow> Inl e
         | Inr m \<Rightarrow>
             (case getattr s self ''_ENIMDA__frames'' of
                Inl e \<Rightarrow> Inl e
              | Inr target \<Rightarrow>
                  (case (if m \<noteq> Float 1
                         then (case dims of
                                 None \<Rightarrow> Inl UnboundLocalError
                               | Some d \<Rightarrow> Inr (convert (resize d (img_pages img ! frame))))
                         else Inr (convert (img_pages img ! frame))) of
                     Inl e \<Rightarrow> Inl e
                   | Inr x \<Rightarrow>
                       (case append_to s target x of
                          Inl e \<Rightarrow> Inl e
                        | Inr s' \<Rightarrow> load resize convert img dims frame_set self rest s')))))"

text \<open>
  \<^verbatim>\<open>self.__multiplier = ...\<close>, executed when the image is resized.
\<close>

definition assign_multiplier ::
  "'f heap \<Rightarrow> nat \<Rightarrow> ((int \<times> int) \<times> real) option \<Rightarrow> 'f heap" where
  "assign_multiplier s self plan =
     (case plan of
        None \<Rightarrow> s
      | Some (d, m) \<Rightarrow> setattr s self ''_ENIMDA__multiplier'' (Float m))"

text \<open>
  The module's global names that are bound to a selector of indices. The file binds
  \<^verbatim>\<open>__randoms\<close>, at the top level, where no name is mangled. Calling a global name
  that is not bound raises NameError.
\<close>

type_synonym selector = "int \<Rightarrow> int option \<Rightarrow> int set"

definition module_globals :: "(int list \<Rightarrow> int list) \<Rightarrow> string \<rightharpoonup> selector" where
  "module_globals shuffle = [''__randoms'' \<mapsto> randoms shuffle]"

definition call_global :: "(string \<rightharpoonup> selector) \<Rightarrow> string \<Rightarrow> int \<Rightarrow> int option \<Rightarrow> error + int set" where
  "call_global globals name count' limit =
     (case globals name of None \<Rightarrow> Inl NameError | Some f \<Rightarrow> Inr (f count' limit))"

text \<open>
  \<^verbatim>\<open>__init__\<close>, for the instance \<open>self\<close>, with the global names \<open>globals\<close>. The two
  calls \<^verbatim>\<open>__randoms(...)\<close> stand inside the class, so the name they look up is
  \<^verbatim>\<open>_ENIMDA__randoms\<close>. \<^verbatim>\<open>rows_count\<close> and \<^verbatim>\<open>column_set\<close> are computed and never
  read.
\<close>

definition init ::
  "(string \<rightharpoonup> selector) \<Rightarrow> (int \<times> int \<Rightarrow> 'p \<Rightarrow> 'p) \<Rightarrow> ('p \<Rightarrow> 'f) \<Rightarrow> 'f heap \<Rightarrow> nat \<Rightarrow>
     'p image \<Rightarrow> int option \<Rightarrow> int option \<Rightarrow> real \<Rightarrow> int option \<Rightarrow> error + 'f heap" where
  "init globals resize convert s self img size' frames rows columns =
     (let rows_count = py_round (rows * of_int (img_height img))
      in case call_global globals ''_ENIMDA__randoms'' (img_width img) columns of
           Inl e \<Rightarrow> Inl e
         | Inr column_set \<Rightarrow>
             (let frame_count = count_frames (length (img_pages img)) 0
              in case call_global globals ''_ENIMDA__randoms'' (int frame_count) frames of
                   Inl e \<Rightarrow> Inl e
                 | Inr frame_set \<Rightarrow>
                     (case (case size' of None \<Rightarrow> Inr None | Some sz \<Rightarrow> resized img sz) of
                        Inl e \<Rightarrow> Inl e
                      | Inr plan \<Rightarrow>
                          load resize convert img (map_option fst plan) frame_set self
                            [0..<frame_count] (assign_multiplier s self plan))))"


subsection \<open>Inputs used in the evaluations, and the sampled array\<close>

text \<open>A sampler that yields every column, in increasing order.\<close>

definition all_columns :: sampler where
  "all_columns frame side w paginate limit = [0..w - 1]"


text \<open>
  An instance whose \<^verbatim>\<open>__converted\<close> holds the given frames and whose \<^verbatim>\<open>__borders\<close>
  is not set yet.
\<close>

definition holding :: "'a list list list \<Rightarrow> 'a ENIMDA" where
  "holding frames = \<lparr>ENIMDA_converted = Some frames, ENIMDA_borders = None\<rparr>"

text \<open>
  A frame of eight rows and two columns: six equal rows, then two rows of other values.
\<close>

definition F8 :: "nat list list" where
  "F8 = [[6, 7], [6, 7], [6, 7], [6, 7], [6, 7], [6, 7], [2, 3], [4, 5]]"

text \<open>A blank frame of two rows and two columns.\<close>

definition blank :: "nat list list" where
  "blank = [[7, 7], [7, 7]]"

text \<open>
  The array \<^verbatim>\<open>np.hstack\<close> builds from the sampled columns of \<open>rot\<close>, written row by
  row; \<open>hstack_columns\<close> below shows that the code computes it.
\<close>

definition sampled :: "'a list list \<Rightarrow> int list \<Rightarrow> 'a list list" where
  "sampled rot cols = map (\<lambda>row. concat (map (\<lambda>r. py_slice r (r + 1) row) cols)) rot"


text \<open>
Two files: one frame, and two frames.
\<close>

definition still :: "nat image" where
  "still = \<lparr>img_width = 2, img_height = 2, img_pages = [10]\<rparr>"

definition clip :: "nat image" where
  "clip = \<lparr>img_width = 2, img_height = 2, img_pages = [20, 30]\<rparr>"


text \<open>
  Global names in which \<^verbatim>\<open>_ENIMDA__randoms\<close> is bound as well, to the same selector.
\<close>

definition patched_globals :: "(int list \<Rightarrow> int list) \<Rightarrow> string \<rightharpoonup> selector" where
  "patched_globals shuffle = (module_globals shuffle)(''_ENIMDA__randoms'' \<mapsto> randoms shuffle)"


section \<open>Properties\<close>

subsection \<open>Entropy estimator\<close>

lemma Counter_step_count:
  "foldl (\<lambda>counts value. counts(value \<mapsto> (case counts value of None \<Rightarrow> 1 | Some c \<Rightarrow> c + 1))) m xs v =
     (if v \<in> set xs
      then Some (count_list xs v + (case m v of None \<Rightarrow> 0 | Some c \<Rightarrow> c))
      else m v)"
  by (induction xs arbitrary: m) (auto split: option.splits)

lemma Counter_count:
  "Counter signal v = (if v \<in> set signal then Some (count_list signal v) else None)"
  unfolding Counter_def by (simp add: Counter_step_count)

lemma sum_terms_all_defined:
  "(\<And>v. v \<in> set vs \<Longrightarrow> term v = Inr (f v)) \<Longrightarrow>
     sum_terms term vs acc = Inr (acc + sum_list (map f vs))"
  by (induction vs arbitrary: acc) (simp_all add: add.assoc)

lemma count_list_pos: "v \<in> set signal \<Longrightarrow> 0 < count_list signal v"
  by (induction signal) auto

text \<open>The estimator never raises, and it computes the specification's sum.\<close>

lemma entropy_total: "entropy signal = Inr (shannon signal)"
proof -
  define p where "p = (\<lambda>v. real (count_list signal v) / real (length signal))"
  define f where "f = (\<lambda>v. p v * log 2 (1 / p v))"
  have each: "(case Counter signal v of
             None \<Rightarrow> Inl KeyError
           | Some c \<Rightarrow>
               (case truediv (real c) (real (length signal)) of
                  Inl e \<Rightarrow> Inl e
                | Inr prob \<Rightarrow>
                    (case truediv 1 prob of
                       Inl e \<Rightarrow> Inl e
                     | Inr q \<Rightarrow> (case log2 q of Inl e \<Rightarrow> Inl e | Inr l \<Rightarrow> Inr (prob * l))))) = Inr (f v)"
    if v: "v \<in> set (remdups signal)" for v
  proof -
    from v have mem: "v \<in> set signal" by simp
    then have c: "0 < count_list signal v" by (rule count_list_pos)
    from mem have n: "0 < length signal" by (cases signal) auto
    from c n have pos: "0 < p v" by (simp add: p_def)
    then have q: "0 < 1 / p v" by (simp only: zero_less_divide_1_iff)
    from n have d1: "truediv (real (count_list signal v)) (real (length signal)) = Inr (p v)"
      by (simp add: truediv_def p_def)
    from pos have d2: "truediv 1 (p v) = Inr (1 / p v)"
      by (simp add: truediv_def)
    from q have d3: "log2 (1 / p v) = Inr (log 2 (1 / p v))"
      by (simp add: log2_def)
    show ?thesis
      by (simp only: Counter_count mem if_True option.case d1 d2 d3 sum.case f_def)
  qed
  have "entropy signal = Inr (0 + sum_list (map f (remdups signal)))"
    unfolding entropy_def Let_def by (rule sum_terms_all_defined) (rule each)
  also have "sum_list (map f (remdups signal)) = shannon signal"
    unfolding shannon_def f_def p_def by (simp add: sum_list_distinct_conv_sum_set)
  finally show ?thesis by simp
qed

lemma count_list_all_same: "set signal \<subseteq> {x} \<Longrightarrow> count_list signal x = length signal"
  by (induction signal) auto

lemma shannon_single: "set signal = {x} \<Longrightarrow> shannon signal = 0"
proof -
  assume s: "set signal = {x}"
  then have "count_list signal x = length signal"
    by (simp add: count_list_all_same)
  moreover from s have "signal \<noteq> []" by auto
  ultimately show ?thesis unfolding shannon_def using s by simp
qed

text \<open>
  C1. For a non-empty signal the estimator returns the Shannon entropy in bits, the sum
  over the distinct values \<open>v\<close> of \<open>p v * log2 (1 / p v)\<close> with
  \<open>p v = count v / length signal\<close>; when all values of the signal are the same value
  \<open>x\<close>, the result is exactly 0.
\<close>

theorem entropy_is_shannon:
  "signal \<noteq> [] \<Longrightarrow>
     entropy signal = Inr (shannon signal) \<and> (set signal = {x} \<longrightarrow> entropy signal = Inr 0)"
  by (simp add: entropy_total shannon_single)

theorem entropy_is_shannon_witness:
  "entropy [5, 5, 5 :: nat] = Inr (shannon [5, 5, 5 :: nat]) \<and> entropy [5, 5, 5 :: nat] = Inr 0"
proof -
  have ne: "[5, 5, 5 :: nat] \<noteq> []" by simp
  have single: "set [5, 5, 5 :: nat] = {5}" by simp
  from entropy_is_shannon [OF ne, of 5] single show ?thesis by blast
qed

text \<open>
  C4, as stated: the estimator fails on a signal of length 0. It does not: the empty
  signal has no distinct value, so no probability is computed and nothing is divided.
\<close>

theorem entropy_empty_counterexample:
  "\<not> (\<exists>e. entropy ([] :: nat list) = Inl e)"
  by (simp add: entropy_def Counter_def)

text \<open>
  C4, amended: on a signal of length 0 the estimator returns 0, the empty sum, and
  raises nothing.
\<close>

theorem entropy_empty: "entropy [] = Inr 0"
  by (simp add: entropy_def Counter_def)


subsection \<open>Random subset selector\<close>

lemma py_slice_prefix: "0 \<le> l \<Longrightarrow> py_slice 0 l xs = take (nat l) xs"
  by (simp add: py_slice_def Let_def min_def)

lemma set_upto_count: "set [0..count' - 1] = {0..<count'}"
  by auto

text \<open>
  C6. Let \<^verbatim>\<open>random.shuffle\<close> permute its list and let the count be non-negative.
  Without a limit the selector returns the full range \<open>[0, count)\<close>. With a limit,
  itself non-negative, it returns a subset of \<open>[0, count)\<close> with exactly
  \<open>min limit count\<close> elements, the elements of a list without repeats. With limit 0
  it returns the empty set.
\<close>

theorem randoms_subset:
  assumes perm: "\<forall>xs. mset (shuffle xs) = mset xs" and cnt: "0 \<le> count'" and limit: "0 \<le> limit"
  shows "randoms shuffle count' None = {0..<count'}
       \<and> randoms shuffle count' (Some limit) \<subseteq> {0..<count'}
       \<and> int (card (randoms shuffle count' (Some limit))) = min limit count'
       \<and> (\<exists>ys. distinct ys \<and> set ys = randoms shuffle count' (Some limit) \<and> int (length ys) = min limit count')
       \<and> randoms shuffle count' (Some 0) = {}"
proof -
  let ?sh = "shuffle [0..count' - 1]"
  from perm have m: "mset ?sh = mset [0..count' - 1]" by blast
  then have s: "set ?sh = {0..<count'}" by (metis set_upto_count set_mset_mset)
  from m have d: "distinct ?sh" by (metis distinct_upto mset_eq_imp_distinct_iff)
  from m have "length ?sh = length [0..count' - 1]" by (metis size_mset)
  with cnt have len: "int (length ?sh) = count'" by simp
  have r: "randoms shuffle count' (Some limit) = set (take (nat limit) ?sh)"
    using limit by (simp add: randoms_def py_slice_prefix)
  have dt: "distinct (take (nat limit) ?sh)" using d by simp
  have lt: "int (length (take (nat limit) ?sh)) = min limit count'"
    using len limit by (simp add: min_def) linarith
  have "randoms shuffle count' None = {0..<count'}" by (auto simp: randoms_def)
  moreover have "randoms shuffle count' (Some limit) \<subseteq> {0..<count'}"
    unfolding r using s set_take_subset by fastforce
  moreover have "int (card (randoms shuffle count' (Some limit))) = min limit count'"
    unfolding r using dt lt by (simp add: distinct_card)
  moreover have "\<exists>ys. distinct ys \<and> set ys = randoms shuffle count' (Some limit) \<and> int (length ys) = min limit count'"
    using dt lt r by blast
  moreover have "randoms shuffle count' (Some 0) = {}"
    by (simp add: randoms_def py_slice_def)
  ultimately show ?thesis by blast
qed

theorem randoms_subset_witness:
  "(\<forall>xs :: int list. mset (rev xs) = mset xs) \<and> (0::int) \<le> 5 \<and> (0::int) \<le> 2
    \<and> randoms rev 5 None = {0..<5}
    \<and> randoms rev 5 (Some 2) = {4, 3}
    \<and> int (card (randoms rev 5 (Some 2))) = 2
    \<and> randoms rev 5 (Some 0) = {}"
proof -
  have p: "\<forall>xs :: int list. mset (rev xs) = mset xs" by simp
  have e: "randoms rev 5 (Some 2) = {4, 3}"
    by (simp add: randoms_def py_slice_def upto.simps)
  from randoms_subset [OF p, of 5 2] e show ?thesis by simp
qed

subsection \<open>Side scanner: the two loops and the search\<close>

lemma shannon_nonneg: "0 \<le> shannon signal"
  unfolding shannon_def
proof (rule sum_nonneg)
  fix v assume "v \<in> set signal"
  then have c: "0 < count_list signal v" by (rule count_list_pos)
  have le: "count_list signal v \<le> length signal" by (rule count_le_length)
  define p where "p = real (count_list signal v) / real (length signal)"
  from c le have n: "0 < length signal" by linarith
  from c le n have p: "0 < p" "p \<le> 1" by (simp_all add: p_def)
  then have "1 \<le> 1 / p" by simp
  with p have "0 \<le> log 2 (1 / p)" by simp
  with p show "0 \<le> real (count_list signal v) / real (length signal) *
      log 2 (1 / (real (count_list signal v) / real (length signal)))"
    unfolding p_def [symmetric] by simp
qed

lemma find_start_Cons:
  "find_start rot border (s # rest) start =
     (if 0 < shannon (region rot border s) then Inr (Some s)
      else find_start rot border rest (Some s))"
  by (simp add: entropy_total)

lemma find_subborder_Cons:
  "find_subborder rot border threshold (center # rest) subborder delta =
     (let upper = shannon (region rot border center);
          lower = shannon (region rot center (2 * center - border));
          diff = (if lower \<noteq> 0 then upper / lower else delta)
      in if diff < delta \<and> diff < threshold
         then find_subborder rot border threshold rest center diff
         else find_subborder rot border threshold rest subborder delta)"
  by (simp add: entropy_total truediv_def Let_def)

lemma find_start_defined:
  "start \<noteq> None \<or> cs \<noteq> [] \<Longrightarrow> \<exists>s. find_start rot border cs start = Inr (Some s)"
  by (induction cs arbitrary: start) (auto simp: find_start_Cons simp del: find_start.simps(2))

lemma find_subborder_defined:
  "\<exists>sb d. find_subborder rot border threshold cs subborder delta = Inr (sb, d)"
  by (induction cs arbitrary: subborder delta)
     (auto simp: find_subborder_Cons Let_def simp del: find_subborder.simps(2))

lemma iteration_defined:
  assumes "start \<noteq> None \<or> border < top_row rot indent"
  shows "\<exists>out. iteration rot threshold indent border start = Inr out"
proof -
  from assms have "start \<noteq> None \<or> [border + 1..top_row rot indent] \<noteq> []" by auto
  from find_start_defined [OF this] obtain s where
    s: "find_start rot border [border + 1..top_row rot indent] start = Inr (Some s)" by blast
  obtain sb d where
    "find_subborder rot border threshold (rev [s..top_row rot indent]) 0 threshold = Inr (sb, d)"
    using find_subborder_defined by blast
  with s show ?thesis by (simp add: iteration_def)
qed

lemma iteration_unbound:
  "\<not> border < top_row rot indent \<Longrightarrow>
     iteration rot threshold indent border None = Inl UnboundLocalError"
  by (simp add: iteration_def)

lemma find_start_rebinds:
  "cs \<noteq> [] \<Longrightarrow> find_start rot border cs start = find_start rot border cs None"
  by (cases cs) simp_all

lemma iteration_rebinds:
  "border < top_row rot indent \<Longrightarrow>
     iteration rot threshold indent border start = iteration rot threshold indent border None"
proof -
  assume "border < top_row rot indent"
  then have "[border + 1..top_row rot indent] \<noteq> []" by simp
  then have "find_start rot border [border + 1..top_row rot indent] start =
             find_start rot border [border + 1..top_row rot indent] None"
    by (rule find_start_rebinds)
  then show ?thesis by (simp only: iteration_def)
qed

lemma search_rebinds:
  "border < top_row rot indent \<Longrightarrow>
     search rot threshold indent fast border start = search rot threshold indent fast border None"
  by (simp add: search.simps [of rot threshold indent fast border start]
        search.simps [of rot threshold indent fast border None]
        iteration_rebinds [of border rot indent threshold start])

lemma iteration_Stop:
  assumes "iteration rot threshold indent border start = Inr (Stop b s)"
  shows "b = border
       \<and> (if border < top_row rot indent then border < s \<and> s \<le> top_row rot indent
          else start = Some s)"
proof -
  from assms have b: "b = border"
    and fs: "find_start rot border [border + 1..top_row rot indent] start = Inr (Some s)"
    unfolding iteration_def
    by (auto split: sum.splits option.splits prod.splits if_splits)
  from find_start_result [OF fs]
  have "if border < top_row rot indent then border < s \<and> s \<le> top_row rot indent
        else start = Some s"
    by (auto split: if_splits)
  with b show ?thesis by simp
qed

lemma iteration_stale:
  assumes "top_row rot indent \<le> border" and "top_row rot indent < s"
  shows "iteration rot threshold indent border (Some s) = Inr (Stop border s)"
  using assms by (simp add: iteration_def)

lemma search_stale:
  assumes "top_row rot indent \<le> border" and "top_row rot indent < s"
  shows "search rot threshold indent fast border (Some s) = Inr (border, s)"
  by (subst search.simps) (simp add: iteration_stale [OF assms])

lemma search_unset_start:
  "top_row rot indent < 1 \<Longrightarrow> search rot threshold indent fast 0 None = Inl UnboundLocalError"
  by (subst search.simps) (simp add: iteration_unbound)

lemma search_bounded:
  "search rot threshold indent fast border start = Inr (b, s) \<Longrightarrow>
   0 \<le> border \<Longrightarrow> border \<le> top_row rot indent \<Longrightarrow> (\<And>s0. start = Some s0 \<Longrightarrow> 1 \<le> s0) \<Longrightarrow>
     0 \<le> b \<and> b \<le> top_row rot indent \<and> 1 \<le> s"
proof (induction rot threshold indent fast border start rule: search.induct)
  case (1 rot threshold indent fast border start)
  from "1.prems"(1) obtain out where
    out: "iteration rot threshold indent border start = Inr out"
    by (subst (asm) search.simps) (auto split: sum.splits)
  show ?case
  proof (cases out)
    case (Stop b0 s0)
    with out "1.prems"(1) have eq: "b = b0" "s = s0" by (subst (asm) search.simps, simp)+
    from out Stop have it: "iteration rot threshold indent border start = Inr (Stop b0 s0)" by simp
    from iteration_Stop [OF it] have b0: "b0 = border"
      and s0: "if border < top_row rot indent then border < s0 \<and> s0 \<le> top_row rot indent
               else start = Some s0"
      by simp_all
    have "1 \<le> s0"
    proof (cases "border < top_row rot indent")
      case True
      with s0 "1.prems"(2) show ?thesis by simp
    next
      case False
      with s0 "1.prems"(4) show ?thesis by simp
    qed
    with eq b0 "1.prems" show ?thesis by simp
  next
    case (Again b' s')
    with out have it: "iteration rot threshold indent border start = Inr (Again b' s')" by simp
    from iteration_Again [OF it] have
      facts: "s' \<le> b'" "b' \<le> top_row rot indent"
        "if border < top_row rot indent then border < s' else start = Some s'"
      by simp_all
    have s1: "1 \<le> s'"
    proof (cases "border < top_row rot indent")
      case True
      with facts(3) "1.prems"(2) show ?thesis by simp
    next
      case False
      with facts(3) "1.prems"(4) show ?thesis by simp
    qed
    show ?thesis
    proof (cases fast)
      case True
      with it "1.prems"(1) have "b = b'" "s = s'" by (subst (asm) search.simps, simp)+
      with s1 facts show ?thesis by simp
    next
      case False
      with it "1.prems"(1) have rec: "search rot threshold indent fast b' (Some s') = Inr (b, s)"
        by (subst (asm) search.simps) simp
      show ?thesis
        using "1.IH" [OF it refl False rec] s1 facts by simp
    qed
  qed
qed

lemma search_returns:
  "start \<noteq> None \<or> border < top_row rot indent \<Longrightarrow>
     \<exists>b s. search rot threshold indent fast border start = Inr (b, s)"
proof (induction rot threshold indent fast border start rule: search.induct)
  case (1 rot threshold indent fast border start)
  from iteration_defined [OF "1.prems"] obtain out where
    out: "iteration rot threshold indent border start = Inr out" by blast
  show ?case
  proof (cases out)
    case (Stop b0 s0)
    with out show ?thesis by (subst search.simps) simp
  next
    case (Again b' s')
    with out have it: "iteration rot threshold indent border start = Inr (Again b' s')" by simp
    show ?thesis
    proof (cases fast)
      case True
      with it show ?thesis by (subst search.simps) simp
    next
      case False
      from "1.IH" [OF it refl False] obtain b s where
        "search rot threshold indent fast b' (Some s') = Inr (b, s)" by blast
      with it False show ?thesis by (subst search.simps) simp
    qed
  qed
qed

subsection \<open>Side scanner: columns, rotation, flat frames\<close>

lemma py_slice_whole: "py_slice 0 (int (length xs)) xs = xs"
  by (simp add: py_slice_def)

lemma set_py_slice: "set (py_slice i j xs) \<subseteq> set xs"
  unfolding py_slice_def Let_def
  by (meson set_take_subset set_drop_subset subset_trans)

lemma map_index: "map (\<lambda>i. f (xs ! i)) [0..<length xs] = map f xs"
  by (rule nth_equalityI) simp_all

lemma hstack_columns:
  assumes "cols \<noteq> []"
  shows "hstack (map (column_slice rot) cols) =
           Inr (map (\<lambda>row. concat (map (\<lambda>r. py_slice r (r + 1) row) cols)) rot)"
proof -
  from assms obtain c cs where cols: "cols = c # cs" by (cases cols) auto
  have len: "length (column_slice rot c) = length rot"
    by (simp add: column_slice_def py_slice_whole)
  have "map (\<lambda>i. concat (map (\<lambda>b. b ! i) (map (column_slice rot) cols))) [0..<length rot]
      = map (\<lambda>i. (\<lambda>row. concat (map (\<lambda>r. py_slice r (r + 1) row) cols)) (rot ! i)) [0..<length rot]"
    by (rule map_cong) (simp_all add: column_slice_def py_slice_whole comp_def)
  also have "\<dots> = map (\<lambda>row. concat (map (\<lambda>r. py_slice r (r + 1) row) cols)) rot"
    by (rule map_index)
  finally show ?thesis
    by (simp add: hstack_def cols [symmetric] len) (simp add: cols len)
qed

lemma shannon_uniform: "set signal \<subseteq> {x} \<Longrightarrow> shannon signal = 0"
proof (cases "signal = []")
  case True
  then show ?thesis by (simp add: shannon_def)
next
  case False
  assume "set signal \<subseteq> {x}"
  with False have "set signal = {x}" by (cases signal) auto
  then show ?thesis by (rule shannon_single)
qed

lemma region_values: "set (region rot a b) \<subseteq> set (concat rot)"
  unfolding region_def using set_py_slice [of a b rot] by auto

lemma find_start_flat:
  "(\<And>a b. shannon (region rot a b) = 0) \<Longrightarrow>
     find_start rot border cs start = Inr (if cs = [] then start else Some (last cs))"
  by (induction cs arbitrary: start) (simp_all add: find_start_Cons del: find_start.simps(2))

lemma find_subborder_flat:
  "(\<And>a b. shannon (region rot a b) = 0) \<Longrightarrow>
     find_subborder rot border threshold cs subborder delta = Inr (subborder, delta)"
  by (induction cs arbitrary: subborder delta)
     (simp_all add: find_subborder_Cons del: find_subborder.simps(2))

lemma find_subborder_low_threshold:
  "threshold \<le> 0 \<Longrightarrow>
     find_subborder rot border threshold cs subborder delta = Inr (subborder, delta)"
proof (induction cs arbitrary: subborder delta)
  case Nil
  then show ?case by simp
next
  case (Cons center rest)
  define upper where "upper = shannon (region rot border center)"
  define lower where "lower = shannon (region rot center (2 * center - border))"
  define diff where "diff = (if lower \<noteq> 0 then upper / lower else delta)"
  have "0 \<le> upper" "0 \<le> lower" unfolding upper_def lower_def by (rule shannon_nonneg)+
  then have "lower \<noteq> 0 \<Longrightarrow> 0 \<le> upper / lower" by simp
  with Cons.prems have "\<not> (diff < delta \<and> diff < threshold)"
    unfolding diff_def by (cases "lower = 0") auto
  then show ?case
    unfolding find_subborder_Cons Let_def upper_def [symmetric] lower_def [symmetric]
      diff_def [symmetric]
    using Cons.IH [OF Cons.prems] by simp
qed

lemma iteration_stops:
  assumes keep: "\<And>cs. find_subborder rot border threshold cs 0 threshold = Inr (0, threshold)"
    and bound: "start \<noteq> None \<or> border < top_row rot indent"
  shows "\<exists>s. iteration rot threshold indent border start = Inr (Stop border s)"
proof -
  from bound have "start \<noteq> None \<or> [border + 1..top_row rot indent] \<noteq> []" by auto
  from find_start_defined [OF this] obtain s where
    "find_start rot border [border + 1..top_row rot indent] start = Inr (Some s)" by blast
  then show ?thesis by (simp add: iteration_def keep)
qed

lemma search_stops:
  assumes "\<And>cs. find_subborder rot border threshold cs 0 threshold = Inr (0, threshold)"
    and "start \<noteq> None \<or> border < top_row rot indent"
  shows "\<exists>s. search rot threshold indent fast border start = Inr (border, s)"
proof -
  from iteration_stops [OF assms] obtain s where
    "iteration rot threshold indent border start = Inr (Stop border s)" by blast
  then show ?thesis by (subst search.simps) simp
qed

lemma py_round_nonpos: "x \<le> 0 \<Longrightarrow> py_round x \<le> 0"
proof -
  assume x: "x \<le> 0"
  then have f: "\<lfloor>x\<rfloor> \<le> 0" by simp
  show ?thesis
  proof (cases "\<lfloor>x\<rfloor> = 0")
    case True
    have "of_int \<lfloor>x\<rfloor> \<le> x" by (rule of_int_floor_le)
    with True x have "x = 0" by simp
    then show ?thesis by (simp add: py_round_def)
  next
    case False
    with f have "\<lfloor>x\<rfloor> + 1 \<le> 0" by linarith
    with f show ?thesis unfolding py_round_def Let_def by (auto split: if_splits)
  qed
qed

lemma top_row_nonpos: "indent \<le> 0 \<Longrightarrow> top_row rot indent \<le> 0"
  unfolding top_row_def by (rule py_round_nonpos) (simp add: mult_nonpos_nonneg)

lemma set_concat_transpose: "set (concat (transpose xss)) \<subseteq> set (concat xss)"
proof (induction xss rule: transpose.induct)
  case 1
  then show ?case by simp
next
  case (2 xss)
  then show ?case by simp
next
  case (3 x xs xss)
  define hs where "hs = concat (map (case_list [] (\<lambda>h t. [h])) xss)"
  define ts where "ts = concat (map (case_list [] (\<lambda>h t. [t])) xss)"
  have h: "set hs \<subseteq> set (concat xss)"
    unfolding hs_def by (auto split: list.splits)
  have t: "set (concat ts) \<subseteq> set (concat xss)"
    unfolding ts_def by (auto split: list.splits)
  from 3 have ih: "set (concat (transpose (xs # ts))) \<subseteq> set (concat (xs # ts))"
    unfolding ts_def .
  have "set (concat (transpose ((x # xs) # xss))) =
          insert x (set hs) \<union> set (concat (transpose (xs # ts)))"
    unfolding hs_def ts_def by simp
  also have "\<dots> \<subseteq> insert x (set (concat xss)) \<union> (set xs \<union> set (concat xss))"
  proof -
    have "set (concat (xs # ts)) \<subseteq> set xs \<union> set (concat xss)"
      using t by auto
    with ih have "set (concat (transpose (xs # ts))) \<subseteq> set xs \<union> set (concat xss)"
      by (rule subset_trans)
    with h show ?thesis by blast
  qed
  also have "\<dots> = set (concat ((x # xs) # xss))" by auto
  finally show ?case .
qed

lemma rot90_values: "set (concat (rot90 arr k)) \<subseteq> set (concat arr)"
proof -
  have "set (concat (transpose (map rev arr))) \<subseteq> set (concat arr)"
    using set_concat_transpose [of "map rev arr"] by auto
  moreover have "set (concat (map rev (transpose arr))) \<subseteq> set (concat arr)"
    using set_concat_transpose [of arr] by auto
  ultimately show ?thesis by (auto simp: rot90_def)
qed

lemma top_row_sampled: "top_row (sampled rot cols) indent = top_row rot indent"
  by (simp add: top_row_def sampled_def)

lemma sampled_values: "set (concat (sampled rot cols)) \<subseteq> set (concat rot)"
  unfolding sampled_def using set_py_slice by fastforce

lemma scan_side_sampled:
  assumes "randoms' frame side (int (width (rot90 arr side))) paginate max_stripes = cols"
  shows "scan_side randoms' arr frame threshold indent paginate max_stripes fast side start =
           (if cols = [] then Inl ValueError
            else search (sampled (rot90 arr side) cols) threshold indent fast 0 start)"
proof (cases "cols = []")
  case True
  with assms show ?thesis by (simp add: scan_side_def hstack_def)
next
  case False
  with assms show ?thesis
    by (simp add: scan_side_def Let_def hstack_columns sampled_def)
qed

lemma scan_side_no_start:
  assumes "top_row (rot90 arr side) indent < 1"
  shows "scan_side randoms' arr frame threshold indent paginate max_stripes fast side None =
           Inl (if randoms' frame side (int (width (rot90 arr side))) paginate max_stripes = []
                then ValueError else UnboundLocalError)"
  using assms
  by (simp add: scan_side_sampled [OF refl] search_unset_start top_row_sampled)

lemma scan_side_stale_start:
  assumes top: "top_row (rot90 arr side) indent < 1"
    and s: "1 \<le> s"
    and cols: "randoms' frame side (int (width (rot90 arr side))) paginate max_stripes \<noteq> []"
  shows "scan_side randoms' arr frame threshold indent paginate max_stripes fast side (Some s) =
           Inr (0, s)"
proof -
  define rot where
    "rot = sampled (rot90 arr side)
             (randoms' frame side (int (width (rot90 arr side))) paginate max_stripes)"
  from top s have "top_row rot indent \<le> 0" "top_row rot indent < s"
    by (simp_all add: rot_def top_row_sampled)
  then have "search rot threshold indent fast 0 (Some s) = Inr (0, s)" by (rule search_stale)
  with cols show ?thesis by (simp add: scan_side_sampled [OF refl] rot_def)
qed

lemma scan_side_rebinds:
  assumes "1 \<le> top_row (rot90 arr side) indent"
  shows "scan_side randoms' arr frame threshold indent paginate max_stripes fast side start =
         scan_side randoms' arr frame threshold indent paginate max_stripes fast side None"
proof -
  define rot where
    "rot = sampled (rot90 arr side)
             (randoms' frame side (int (width (rot90 arr side))) paginate max_stripes)"
  from assms have "0 < top_row rot indent" by (simp add: rot_def top_row_sampled)
  then have "search rot threshold indent fast 0 start = search rot threshold indent fast 0 None"
    by (rule search_rebinds)
  then show ?thesis
    by (simp add: scan_side_sampled [OF refl] rot_def)
qed

lemma scan_side_range:
  assumes top: "1 \<le> top_row (rot90 arr side) indent"
    and cols: "randoms' frame side (int (width (rot90 arr side))) paginate max_stripes \<noteq> []"
  shows "\<exists>offset s.
           scan_side randoms' arr frame threshold indent paginate max_stripes fast side start =
             Inr (offset, s)
         \<and> 0 \<le> offset \<and> offset \<le> top_row (rot90 arr side) indent \<and> 1 \<le> s"
proof -
  define rot where
    "rot = sampled (rot90 arr side)
             (randoms' frame side (int (width (rot90 arr side))) paginate max_stripes)"
  have t: "top_row rot indent = top_row (rot90 arr side) indent"
    unfolding rot_def by (rule top_row_sampled)
  have "scan_side randoms' arr frame threshold indent paginate max_stripes fast side start =
        scan_side randoms' arr frame threshold indent paginate max_stripes fast side None"
    using top by (rule scan_side_rebinds)
  also have "\<dots> = search rot threshold indent fast 0 None"
    using cols by (simp add: scan_side_sampled [OF refl] rot_def)
  finally have sc: "scan_side randoms' arr frame threshold indent paginate max_stripes fast side start =
      search rot threshold indent fast 0 None" .
  from top t have "None \<noteq> None \<or> (0::int) < top_row rot indent" by simp
  from search_returns [OF this] obtain b s where
    b: "search rot threshold indent fast 0 None = Inr (b, s)" by blast
  from search_bounded [OF b] top t have "0 \<le> b \<and> b \<le> top_row rot indent \<and> 1 \<le> s" by simp
  with b sc t show ?thesis by simp
qed

lemma scan_side_start_positive:
  assumes run: "scan_side randoms' arr frame threshold indent paginate max_stripes fast side start =
                  Inr (b, s)"
    and start: "\<And>s0. start = Some s0 \<Longrightarrow> 1 \<le> s0"
  shows "1 \<le> s"
proof -
  from run have cols: "randoms' frame side (int (width (rot90 arr side))) paginate max_stripes \<noteq> []"
    by (auto simp: scan_side_sampled [OF refl] split: if_splits)
  show ?thesis
  proof (cases "1 \<le> top_row (rot90 arr side) indent")
    case True
    have "\<exists>offset s.
           scan_side randoms' arr frame threshold indent paginate max_stripes fast side start =
             Inr (offset, s)
         \<and> 0 \<le> offset \<and> offset \<le> top_row (rot90 arr side) indent \<and> 1 \<le> s"
      using True cols by (rule scan_side_range)
    with run show ?thesis by auto
  next
    case False
    then have top: "top_row (rot90 arr side) indent < 1" by simp
    show ?thesis
    proof (cases start)
      case None
      have "scan_side randoms' arr frame threshold indent paginate max_stripes fast side None =
           Inl (if randoms' frame side (int (width (rot90 arr side))) paginate max_stripes = []
                then ValueError else UnboundLocalError)"
        using top by (rule scan_side_no_start)
      with run None show ?thesis by simp
    next
      case (Some s0)
      with start have s0: "1 \<le> s0" by simp
      with top
      have "scan_side randoms' arr frame threshold indent paginate max_stripes fast side (Some s0) =
              Inr (0, s0)"
        using cols by (rule scan_side_stale_start)
      with run Some have "s = s0" by simp
      with s0 show ?thesis by simp
    qed
  qed
qed

lemma flat_regions:
  assumes "set (concat rot) \<subseteq> {x}"
  shows "shannon (region rot a b) = 0"
  using assms region_values [of rot a b] by (intro shannon_uniform [of _ x]) blast

lemma scan_side_blank:
  assumes flat: "set (concat arr) \<subseteq> {x}"
    and top: "1 \<le> top_row (rot90 arr side) indent"
    and cols: "randoms' frame side (int (width (rot90 arr side))) paginate max_stripes \<noteq> []"
  shows "\<exists>s. scan_side randoms' arr frame threshold indent paginate max_stripes fast side start =
               Inr (0, s)"
proof -
  define rot where
    "rot = sampled (rot90 arr side)
             (randoms' frame side (int (width (rot90 arr side))) paginate max_stripes)"
  have "set (concat rot) \<subseteq> set (concat (rot90 arr side))"
    unfolding rot_def by (rule sampled_values)
  with rot90_values [of arr side] flat have "set (concat rot) \<subseteq> {x}" by blast
  then have z: "\<And>a b. shannon (region rot a b) = 0" by (rule flat_regions)
  have keep: "\<And>cs. find_subborder rot 0 threshold cs 0 threshold = Inr (0, threshold)"
    by (rule find_subborder_flat) (rule z)
  from top have "start \<noteq> None \<or> (0::int) < top_row rot indent"
    by (simp add: rot_def top_row_sampled)
  from search_stops [of rot 0 threshold, OF keep this]
  have "\<exists>s. search rot threshold indent fast 0 start = Inr (0, s)" .
  with cols show ?thesis by (simp add: scan_side_sampled [OF refl] rot_def)
qed

lemma scan_side_low_threshold:
  assumes thr: "threshold \<le> 0"
    and top: "1 \<le> top_row (rot90 arr side) indent"
    and cols: "randoms' frame side (int (width (rot90 arr side))) paginate max_stripes \<noteq> []"
  shows "\<exists>s. scan_side randoms' arr frame threshold indent paginate max_stripes fast side start =
               Inr (0, s)"
proof -
  define rot where
    "rot = sampled (rot90 arr side)
             (randoms' frame side (int (width (rot90 arr side))) paginate max_stripes)"
  have keep: "\<And>cs. find_subborder rot 0 threshold cs 0 threshold = Inr (0, threshold)"
    by (rule find_subborder_low_threshold) (rule thr)
  from top have "start \<noteq> None \<or> (0::int) < top_row rot indent"
    by (simp add: rot_def top_row_sampled)
  from search_stops [of rot 0 threshold, OF keep this]
  have "\<exists>s. search rot threshold indent fast 0 start = Inr (0, s)" .
  with cols show ?thesis by (simp add: scan_side_sampled [OF refl] rot_def)
qed

subsection \<open>Side scanner: the claims\<close>

lemma log2_4: "log 2 4 = 2"
  using log_nat_power [of 2 2 2] by simp

lemma log2_8: "log 2 8 = 3"
  using log_nat_power [of 2 2 3] by simp

lemma F8_top: "top_row F8 (1 / 2) = 4"
  by (simp add: top_row_def F8_def py_round_def)

lemma F8_regions:
  "entropy (region F8 0 1) = Inr 1"
  "entropy (region F8 0 2) = Inr 1"
  "entropy (region F8 0 3) = Inr 1"
  "entropy (region F8 0 4) = Inr 1"
  "entropy (region F8 1 2) = Inr 1"
  "entropy (region F8 2 4) = Inr 1"
  "entropy (region F8 3 6) = Inr 1"
  "entropy (region F8 4 8) = Inr (5 / 2)"
  "entropy (region F8 4 4) = Inr 0"
  "entropy (region F8 4 3) = Inr 0"
  "entropy (region F8 4 2) = Inr 0"
  "entropy (region F8 4 1) = Inr 0"
  "entropy (region F8 3 2) = Inr 0"
  "entropy (region F8 2 0) = Inr 0"
  "entropy (region F8 1 (- 2)) = Inr 1"
  by (simp_all add: region_def py_slice_def F8_def entropy_def Counter_def truediv_def log2_def
        log2_4 log2_8)

lemma blank_tops:
  "top_row (rot90 blank side) (1 / 2) = 1"
  "top_row (rot90 blank side) (1 / 4) = 0"
  "top_row (rot90 blank side) 0 = 0"
  by (simp_all add: top_row_def rot90_def blank_def py_round_def)

lemma blank_columns: "all_columns frame side (int (width (rot90 blank k))) paginate limit = [0, 1]"
  by (simp add: all_columns_def width_def rot90_def blank_def upto.simps)

lemma blank_flat: "set (concat blank) \<subseteq> {7}"
  by (simp add: blank_def)

lemma F8_columns: "all_columns frame side (int (width (rot90 F8 0))) paginate limit = [0, 1]"
  by (simp add: all_columns_def width_def rot90_def F8_def upto.simps)

lemma scan_sides_all:
  assumes "\<And>side start. side \<in> set sides \<Longrightarrow> \<exists>s. side_scan side start = Inr (f side, s)"
  shows "scan_sides side_scan sides start = Inr (map f sides)"
  using assms
proof (induction sides arbitrary: start)
  case Nil
  show ?case by simp
next
  case (Cons side rest)
  from Cons.prems [of side start] obtain s where "side_scan side start = Inr (f side, s)"
    by auto
  moreover have "scan_sides side_scan rest (Some s) = Inr (map f rest)"
    by (rule Cons.IH) (rule Cons.prems, simp)
  ultimately show ?case by simp
qed

lemma collect_all:
  "(\<And>x. x \<in> set xs \<Longrightarrow> f x = Inr (g x)) \<Longrightarrow> collect f xs = Inr (map g xs)"
  by (induction xs) simp_all

text \<open>
  C2. When \<open>round (indent * h)\<close> is at least 1, \<open>h\<close> the height of the rotated view,
  a side either samples no column, and then \<^verbatim>\<open>np.hstack\<close> raises and no offset is
  returned, or it returns an offset between 0 and \<open>round (indent * h)\<close>, whatever
  \<open>start\<close> holds when the side is entered.
\<close>

theorem scan_side_offset_range:
  assumes "1 \<le> top_row (rot90 arr side) indent"
  shows "(randoms' frame side (int (width (rot90 arr side))) paginate max_stripes = []
           \<and> scan_side randoms' arr frame threshold indent paginate max_stripes fast side start =
               Inl ValueError)
       \<or> (\<exists>offset s.
             scan_side randoms' arr frame threshold indent paginate max_stripes fast side start =
               Inr (offset, s)
           \<and> 0 \<le> offset \<and> offset \<le> top_row (rot90 arr side) indent)"
proof (cases "randoms' frame side (int (width (rot90 arr side))) paginate max_stripes = []")
  case True
  then show ?thesis by (simp add: scan_side_sampled [OF refl])
next
  case False
  have "\<exists>offset s.
           scan_side randoms' arr frame threshold indent paginate max_stripes fast side start =
             Inr (offset, s)
         \<and> 0 \<le> offset \<and> offset \<le> top_row (rot90 arr side) indent \<and> 1 \<le> s"
    using assms False by (rule scan_side_range)
  then show ?thesis by blast
qed

theorem scan_side_offset_range_witness:
  "1 \<le> top_row (rot90 F8 0) (1 / 2)
   \<and> (\<exists>offset s. scan_side all_columns F8 0 (1 / 2) (1 / 2) 1 None True 0 None = Inr (offset, s)
         \<and> 0 \<le> offset \<and> offset \<le> 4)"
proof -
  have t: "top_row (rot90 F8 0) (1 / 2) = 4" by (simp add: rot90_def F8_top)
  then have top: "1 \<le> top_row (rot90 F8 0) (1 / 2)" by simp
  from scan_side_offset_range [OF top, where ?randoms' = all_columns and frame = 0
      and paginate = 1 and max_stripes = None and threshold = "1 / 2" and fast = True
      and start = None]
  show ?thesis by (simp add: F8_columns t)
qed

text \<open>
  The frame \<^const>\<open>F8\<close> scanned with threshold 0.5 and indent 0.25. Sides 0 and 2 have
  eight rows and \<open>round (indent * h) = 2\<close>; sides 1 and 3 have two rows and
  \<open>round (indent * h) = 0\<close>, and are entered with the value 1 that the side before
  left in \<open>start\<close>.
\<close>

lemma F8_rot1: "rot90 F8 1 = [[7, 7, 7, 7, 7, 7, 3, 5], [6, 6, 6, 6, 6, 6, 2, 4]]"
  by (simp add: rot90_def F8_def)

lemma F8_rot2: "rot90 F8 2 = [[5, 4], [3, 2], [7, 6], [7, 6], [7, 6], [7, 6], [7, 6], [7, 6]]"
  by (simp add: rot90_def F8_def)

lemma F8_rot3: "rot90 F8 3 = [[4, 2, 6, 6, 6, 6, 6, 6], [5, 3, 7, 7, 7, 7, 7, 7]]"
  by (simp add: rot90_def F8_def)

lemma F8_quarter_tops:
  "top_row (rot90 F8 0) (1 / 4) = 2"
  "top_row (rot90 F8 1) (1 / 4) = 0"
  "top_row (rot90 F8 2) (1 / 4) = 2"
  "top_row (rot90 F8 3) (1 / 4) = 0"
  by (simp_all add: top_row_def F8_rot1 F8_rot2 F8_rot3 py_round_def)
     (simp_all add: rot90_def F8_def top_row_def py_round_def)

lemma F8_all_columns:
  "all_columns frame side (int (width (rot90 F8 0))) paginate limit = [0, 1]"
  "all_columns frame side (int (width (rot90 F8 1))) paginate limit = [0, 1, 2, 3, 4, 5, 6, 7]"
  "all_columns frame side (int (width (rot90 F8 2))) paginate limit = [0, 1]"
  "all_columns frame side (int (width (rot90 F8 3))) paginate limit = [0, 1, 2, 3, 4, 5, 6, 7]"
  by (simp_all add: all_columns_def width_def F8_rot1 F8_rot2 F8_rot3 upto.simps)
     (simp_all add: rot90_def F8_def)

lemma F8_sampled:
  "sampled (rot90 F8 0) [0, 1] = F8"
  "sampled (rot90 F8 2) [0, 1] = rot90 F8 2"
  by (simp_all add: sampled_def py_slice_def F8_rot2) (simp_all add: rot90_def F8_def)

lemma F8_rot2_regions:
  "entropy (region (rot90 F8 2) 0 1) = Inr 1"
  "entropy (region (rot90 F8 2) 0 2) = Inr 2"
  "entropy (region (rot90 F8 2) 1 2) = Inr 1"
  "entropy (region (rot90 F8 2) 2 4) = Inr 1"
  by (simp_all add: region_def py_slice_def F8_rot2 entropy_def Counter_def truediv_def log2_def
        log2_4)

lemma F8_quarter_side0:
  "scan_side all_columns F8 0 (1 / 2) (1 / 4) 1 None True 0 None = Inr (0, 1)"
proof -
  have t: "top_row F8 (1 / 4) = 2" using F8_quarter_tops(1) by (simp add: rot90_def)
  have "iteration F8 (1 / 2) (1 / 4) 0 None = Inr (Stop 0 1)"
    by (simp add: iteration_def t F8_regions truediv_def upto.simps)
  then have "search F8 (1 / 2) (1 / 4) True 0 None = Inr (0, 1)"
    by (subst search.simps) simp
  then show ?thesis
    by (simp add: scan_side_sampled [OF refl] F8_all_columns F8_sampled)
qed

lemma F8_quarter_side2:
  "scan_side all_columns F8 0 (1 / 2) (1 / 4) 1 None True 2 start = Inr (0, 1)"
proof -
  have t: "top_row (rot90 F8 2) (1 / 4) = 2" by (rule F8_quarter_tops)
  have "iteration (rot90 F8 2) (1 / 2) (1 / 4) 0 start = Inr (Stop 0 1)"
    by (simp add: iteration_def t F8_rot2_regions truediv_def upto.simps)
  then have "search (rot90 F8 2) (1 / 2) (1 / 4) True 0 start = Inr (0, 1)"
    by (subst search.simps) simp
  then show ?thesis
    by (simp add: scan_side_sampled [OF refl] F8_all_columns F8_sampled)
qed

lemma F8_quarter:
  "scan_frame all_columns (holding [F8]) 0 (1 / 2) (1 / 4) 1 None True = Inr [0, 0, 0, 0]"
proof -
  have s1: "scan_side all_columns F8 0 (1 / 2) (1 / 4) 1 None True 1 (Some 1) = Inr (0, 1)"
    by (rule scan_side_stale_start)
       (simp_all add: F8_quarter_tops F8_all_columns del: One_nat_def)
  have s3: "scan_side all_columns F8 0 (1 / 2) (1 / 4) 1 None True 3 (Some 1) = Inr (0, 1)"
    by (rule scan_side_stale_start) (simp_all add: F8_quarter_tops F8_all_columns)
  show ?thesis
    by (simp add: scan_frame_def holding_def F8_quarter_side0 s1 F8_quarter_side2 s3
          del: One_nat_def)
qed

text \<open>
  C5. The claim is that with \<open>round (indent * h) < 1\<close> the side is not scanned and its
  offset is 0, without any error and without the use of an unset loop variable. The
  code has no such guard. On a side that is entered while \<open>start\<close> is unbound, which is
  side 0, the first \<^verbatim>\<open>for\<close> loop has no candidate, \<open>start\<close> stays unbound, and the
  second loop reads it: the code raises. A later side is only reached after side 0 has
  bound \<open>start\<close>, to a value that is at least 1 (\<open>scan_side_start_positive\<close>); there
  the second loop runs over the empty range from that old value and the offset is 0, as
  on sides 1 and 3 in \<open>F8_quarter\<close>.
\<close>

theorem scan_side_unset_start:
  assumes "top_row (rot90 arr side) indent < 1"
  shows "scan_side randoms' arr frame threshold indent paginate max_stripes fast side None =
           Inl (if randoms' frame side (int (width (rot90 arr side))) paginate max_stripes = []
                then ValueError else UnboundLocalError)
       \<and> (randoms' frame side (int (width (rot90 arr side))) paginate max_stripes \<noteq> [] \<and> 1 \<le> s \<longrightarrow>
            scan_side randoms' arr frame threshold indent paginate max_stripes fast side (Some s) =
              Inr (0, s))"
  using scan_side_no_start [OF assms] scan_side_stale_start [OF assms] by blast

theorem scan_side_unset_start_witness:
  "top_row (rot90 blank 0) (1 / 4) < 1
   \<and> scan_side all_columns blank 0 (1 / 2) (1 / 4) 1 None True 0 None = Inl UnboundLocalError
   \<and> top_row (rot90 F8 1) (1 / 4) < 1
   \<and> scan_side all_columns F8 0 (1 / 2) (1 / 4) 1 None True 1 (Some 1) = Inr (0, 1)"
proof -
  have top: "top_row (rot90 blank 0) (1 / 4) < 1" by (simp add: blank_tops)
  have top': "top_row (rot90 F8 1) (1 / 4) < 1" by (simp only: F8_quarter_tops)
  have cols: "all_columns 0 1 (int (width (rot90 F8 1))) 1 None \<noteq> []"
    by (simp only: F8_all_columns) simp
  from scan_side_unset_start [OF top, where ?randoms' = all_columns and frame = 0
      and paginate = 1 and max_stripes = None and threshold = "1 / 2" and fast = True and s = 1]
  have a: "scan_side all_columns blank 0 (1 / 2) (1 / 4) 1 None True 0 None = Inl UnboundLocalError"
    by (simp add: blank_columns)
  from scan_side_unset_start [OF top', where ?randoms' = all_columns and frame = 0
      and paginate = 1 and max_stripes = None and threshold = "1 / 2" and fast = True and s = 1]
    cols
  have b: "scan_side all_columns F8 0 (1 / 2) (1 / 4) 1 None True 1 (Some 1) = Inr (0, 1)"
    by simp
  from top a top' b show ?thesis by blast
qed

text \<open>
  C3. The claim is that a blank frame gives offset 0 on every side for every valid
  threshold and indent. For a blank frame of two rows and two columns and the default
  indent 0.25, \<open>round (0.25 * 2) = 0\<close> and the scan of the frame raises
  UnboundLocalError on side 0. Where \<open>round (indent * h)\<close> is at least 1 and a column
  is sampled, the offset of a blank frame is 0: that is \<open>scan_side_blank\<close>.
\<close>

theorem blank_frame_raises:
  "scan_frame all_columns (holding [blank]) 0 (1 / 2) (1 / 4) 1 None True = Inl UnboundLocalError"
  by (simp add: scan_frame_def holding_def scan_side_no_start blank_tops blank_columns)

text \<open>
  C7. The loop ends for every input: \<^const>\<open>search\<close> is a total function, by the
  termination proof above. The claim's reason does not hold in the code, though: a pass
  can lower the border. On \<^const>\<open>F8\<close> with threshold 0.5 and indent 0.5 the first
  pass moves the border from 0 to 4, which is \<open>round (indent * h)\<close>; in the second pass
  the first loop has no candidate, \<open>start\<close> keeps its old value 1, the slice
  \<^verbatim>\<open>rot[1:-2]\<close> for center 1 wraps around, and the border becomes 1.
\<close>

theorem border_decreases:
  "iteration F8 (1 / 2) (1 / 2) 0 None = Inr (Again 4 1)
   \<and> iteration F8 (1 / 2) (1 / 2) 4 (Some 1) = Inr (Again 1 1)"
  by (simp add: iteration_def F8_top F8_regions truediv_def upto.simps)

subsection \<open>The scan and its configuration\<close>

lemma scan_frame_low_threshold:
  assumes conv: "ENIMDA_converted self = Some converted"
    and frame: "frame < length converted"
    and thr: "threshold \<le> 0"
    and sides: "\<forall>side\<in>{0, 1, 2, 3}.
        1 \<le> top_row (rot90 (converted ! frame) side) indent
      \<and> randoms' frame side (int (width (rot90 (converted ! frame) side)))
          (if 0 < stripes \<and> stripes < 1 then py_round (1 / stripes) else 1) max_stripes \<noteq> []"
  shows "scan_frame randoms' self frame threshold indent stripes max_stripes fast = Inr [0, 0, 0, 0]"
proof -
  define paginate where
    "paginate = (if 0 < stripes \<and> stripes < 1 then py_round (1 / stripes) else 1)"
  have "scan_sides
          (scan_side randoms' (converted ! frame) frame threshold indent paginate max_stripes fast)
          [0, 1, 2, 3] None = Inr (map (\<lambda>side. 0) [0, 1, 2, 3 :: nat])"
  proof (rule scan_sides_all)
    fix side :: nat and start :: "int option"
    assume "side \<in> set [0, 1, 2, 3]"
    with sides have top: "1 \<le> top_row (rot90 (converted ! frame) side) indent"
      and cols: "randoms' frame side (int (width (rot90 (converted ! frame) side)))
                   paginate max_stripes \<noteq> []"
      by (auto simp: paginate_def)
    from thr top cols
    show "\<exists>s. scan_side randoms' (converted ! frame) frame threshold indent paginate max_stripes
                 fast side start = Inr (0, s)"
      by (rule scan_side_low_threshold)
  qed
  with conv frame show ?thesis by (simp add: scan_frame_def paginate_def)
qed

lemma scan_low_threshold:
  assumes conv: "ENIMDA_converted self = Some converted"
    and thr: "threshold \<le> 0"
    and sides: "\<forall>f<length converted. \<forall>side\<in>{0, 1, 2, 3}.
        1 \<le> top_row (rot90 (converted ! f) side) indent
      \<and> randoms' f side (int (width (rot90 (converted ! f) side)))
          (if 0 < stripes \<and> stripes < 1 then py_round (1 / stripes) else 1) max_stripes \<noteq> []"
  shows "scan randoms' self threshold indent stripes max_stripes fast =
           Inr (self\<lparr>ENIMDA_borders := Some (replicate (length converted) [0, 0, 0, 0])\<rparr>)"
proof -
  have "collect (\<lambda>f. scan_frame randoms' self f threshold indent stripes max_stripes fast)
          [0..<length converted] = Inr (map (\<lambda>f. [0, 0, 0, 0]) [0..<length converted])"
  proof (rule collect_all)
    fix f assume "f \<in> set [0..<length converted]"
    then have f: "f < length converted" by simp
    with sides have "\<forall>side\<in>{0, 1, 2, 3}.
        1 \<le> top_row (rot90 (converted ! f) side) indent
      \<and> randoms' f side (int (width (rot90 (converted ! f) side)))
          (if 0 < stripes \<and> stripes < 1 then py_round (1 / stripes) else 1) max_stripes \<noteq> []"
      by blast
    with conv f thr
    show "scan_frame randoms' self f threshold indent stripes max_stripes fast = Inr [0, 0, 0, 0]"
      by (rule scan_frame_low_threshold)
  qed
  with conv show ?thesis by (simp add: scan_def map_replicate_const)
qed

lemma scan_no_frames:
  "ENIMDA_converted self = Some [] \<Longrightarrow>
     scan randoms' self threshold indent stripes max_stripes fast =
       Inr (self\<lparr>ENIMDA_borders := Some []\<rparr>)"
  by (simp add: scan_def)

lemma scan_stripes:
  assumes "stripes \<le> 0"
  shows "scan randoms' self threshold indent stripes max_stripes fast =
         scan randoms' self threshold indent 1 max_stripes fast"
proof -
  have frame: "scan_frame randoms' self f threshold indent stripes max_stripes fast =
        scan_frame randoms' self f threshold indent 1 max_stripes fast" for f
    using assms by (simp add: scan_frame_def)
  show ?thesis unfolding scan_def frame by (rule refl)
qed

lemma scan_max_stripes:
  assumes "\<forall>frame side w paginate limit.
             randoms' frame side w paginate limit = randoms' frame side w paginate None"
  shows "scan randoms' self threshold indent stripes max_stripes fast =
         scan randoms' self threshold indent stripes None fast"
proof -
  from assms have r: "randoms' frame side w paginate max_stripes = randoms' frame side w paginate None"
    for frame side w paginate by blast
  have side: "scan_side randoms' arr f threshold indent paginate max_stripes fast =
              scan_side randoms' arr f threshold indent paginate None fast" for arr f paginate
    by (intro ext) (simp add: scan_side_def r)
  have frame: "scan_frame randoms' self f threshold indent stripes max_stripes fast =
        scan_frame randoms' self f threshold indent stripes None fast" for f
    unfolding scan_frame_def side by (rule refl)
  show ?thesis unfolding scan_def frame by (rule refl)
qed

lemma blank_sides:
  "\<forall>f<length [blank]. \<forall>side\<in>{0, 1, 2, 3}.
        1 \<le> top_row (rot90 ([blank] ! f) side) (1 / 2)
      \<and> all_columns f side (int (width (rot90 ([blank] ! f) side)))
          (if 0 < stripes \<and> stripes < 1 then py_round (1 / stripes) else 1) None \<noteq> []"
  by (simp add: blank_tops blank_columns)

text \<open>
  C8, as stated: a call with a threshold that is not positive is rejected with
  InvalidConfiguration before any scanning. It is not: the scan runs and stores the
  offsets of the frame.
\<close>

theorem scan_accepts_zero_threshold:
  "scan all_columns (holding [blank]) 0 (1 / 2) 1 None True =
     Inr ((holding [blank])\<lparr>ENIMDA_borders := Some [[0, 0, 0, 0]]\<rparr>)"
proof -
  have conv: "ENIMDA_converted (holding [blank]) = Some [blank]" by (simp add: holding_def)
  have thr: "(0 :: real) \<le> 0" by simp
  have "scan all_columns (holding [blank]) 0 (1 / 2) 1 None True =
          Inr ((holding [blank])\<lparr>ENIMDA_borders := Some (replicate (length [blank]) [0, 0, 0, 0])\<rparr>)"
    using conv thr blank_sides [of 1] by (rule scan_low_threshold)
  then show ?thesis by simp
qed

text \<open>
  C8, amended: a scan call is not rejected for its configuration. For an instance whose
  frames are set: with no frame, every configuration is accepted and the empty tuple of
  borders is stored; with a threshold that is not positive, when every side of every
  frame has \<open>round (indent * h)\<close> at least 1 and samples a column, the scan stores
  offset 0 for every side of every frame; stripes that are not positive are treated as
  1.0; and \<open>max_stripes\<close> only reaches the column sampler, so that with a sampler that
  ignores its limit the scan does not depend on it.
\<close>

theorem scan_not_validated:
  assumes "ENIMDA_converted self = Some converted"
  shows "(converted = [] \<longrightarrow>
            scan randoms' self threshold indent stripes max_stripes fast =
              Inr (self\<lparr>ENIMDA_borders := Some []\<rparr>))
       \<and> (threshold \<le> 0
          \<and> (\<forall>f<length converted. \<forall>side\<in>{0, 1, 2, 3}.
                1 \<le> top_row (rot90 (converted ! f) side) indent
              \<and> randoms' f side (int (width (rot90 (converted ! f) side)))
                  (if 0 < stripes \<and> stripes < 1 then py_round (1 / stripes) else 1) max_stripes \<noteq> [])
          \<longrightarrow> scan randoms' self threshold indent stripes max_stripes fast =
                Inr (self\<lparr>ENIMDA_borders := Some (replicate (length converted) [0, 0, 0, 0])\<rparr>))
       \<and> (stripes \<le> 0 \<longrightarrow>
            scan randoms' self threshold indent stripes max_stripes fast =
            scan randoms' self threshold indent 1 max_stripes fast)
       \<and> ((\<forall>frame side w paginate limit.
              randoms' frame side w paginate limit = randoms' frame side w paginate None) \<longrightarrow>
            scan randoms' self threshold indent stripes max_stripes fast =
            scan randoms' self threshold indent stripes None fast)"
proof (intro conjI impI)
  assume "converted = []"
  with assms show "scan randoms' self threshold indent stripes max_stripes fast =
      Inr (self\<lparr>ENIMDA_borders := Some []\<rparr>)"
    by (simp add: scan_no_frames)
next
  assume "threshold \<le> 0
          \<and> (\<forall>f<length converted. \<forall>side\<in>{0, 1, 2, 3}.
                1 \<le> top_row (rot90 (converted ! f) side) indent
              \<and> randoms' f side (int (width (rot90 (converted ! f) side)))
                  (if 0 < stripes \<and> stripes < 1 then py_round (1 / stripes) else 1) max_stripes \<noteq> [])"
  then show "scan randoms' self threshold indent stripes max_stripes fast =
      Inr (self\<lparr>ENIMDA_borders := Some (replicate (length converted) [0, 0, 0, 0])\<rparr>)"
    using scan_low_threshold [OF assms] by blast
next
  assume "stripes \<le> 0"
  then show "scan randoms' self threshold indent stripes max_stripes fast =
             scan randoms' self threshold indent 1 max_stripes fast"
    by (rule scan_stripes)
next
  assume "\<forall>frame side w paginate limit.
              randoms' frame side w paginate limit = randoms' frame side w paginate None"
  then show "scan randoms' self threshold indent stripes max_stripes fast =
             scan randoms' self threshold indent stripes None fast"
    by (rule scan_max_stripes)
qed

theorem scan_not_validated_witness:
  "ENIMDA_converted (holding ([] :: nat list list list)) = Some []
   \<and> ENIMDA_converted (holding [blank]) = Some [blank]
   \<and> scan all_columns (holding ([] :: nat list list list)) 0 0 0 (Some 0) True =
       Inr ((holding [])\<lparr>ENIMDA_borders := Some []\<rparr>)
   \<and> scan all_columns (holding [blank]) 0 (1 / 2) 0 None True =
       Inr ((holding [blank])\<lparr>ENIMDA_borders := Some [[0, 0, 0, 0]]\<rparr>)
   \<and> scan all_columns (holding [blank]) (1 / 2) (1 / 2) 0 (Some 0) True =
       scan all_columns (holding [blank]) (1 / 2) (1 / 2) 1 (Some 0) True
   \<and> scan all_columns (holding [blank]) (1 / 2) (1 / 2) 0 (Some 0) True =
       scan all_columns (holding [blank]) (1 / 2) (1 / 2) 0 None True"
proof -
  have empty: "ENIMDA_converted (holding ([] :: nat list list list)) = Some []"
    by (simp add: holding_def)
  have one: "ENIMDA_converted (holding [blank]) = Some [blank]"
    by (simp add: holding_def)
  have ignores: "\<forall>frame side w paginate limit.
      all_columns frame side w paginate limit = all_columns frame side w paginate None"
    by (simp add: all_columns_def)
  from scan_not_validated [OF empty, where ?randoms' = all_columns and threshold = 0
      and indent = 0 and stripes = 0 and max_stripes = "Some 0" and fast = True]
  have a: "scan all_columns (holding ([] :: nat list list list)) 0 0 0 (Some 0) True =
       Inr ((holding [])\<lparr>ENIMDA_borders := Some []\<rparr>)"
    by simp
  from scan_not_validated [OF one, where ?randoms' = all_columns and threshold = 0
      and indent = "1 / 2" and stripes = 0 and max_stripes = None and fast = True]
    blank_sides [of 0]
  have b: "scan all_columns (holding [blank]) 0 (1 / 2) 0 None True =
       Inr ((holding [blank])\<lparr>ENIMDA_borders := Some [[0, 0, 0, 0]]\<rparr>)"
    by simp
  note half = scan_not_validated [OF one, where ?randoms' = all_columns and threshold = "1 / 2"
      and indent = "1 / 2" and stripes = 0 and max_stripes = "Some 0" and fast = True]
  from half have c: "scan all_columns (holding [blank]) (1 / 2) (1 / 2) 0 (Some 0) True =
       scan all_columns (holding [blank]) (1 / 2) (1 / 2) 1 (Some 0) True"
    by simp
  from half ignores
  have d: "scan all_columns (holding [blank]) (1 / 2) (1 / 2) 0 (Some 0) True =
       scan all_columns (holding [blank]) (1 / 2) (1 / 2) 0 None True"
    by blast
  from empty one a b c d show ?thesis by simp
qed

subsection \<open>Two runs of a frame scan\<close>















subsection \<open>Constructor: one frame list for all instances\<close>

lemma getattr_list_objs [simp]:
  "getattr (s\<lparr>list_objs := objs\<rparr>) self name = getattr s self name"
  by (simp add: getattr_def split: option.splits)

lemma load_sim:
  assumes "getattr s self ''_ENIMDA__multiplier'' = getattr t self ''_ENIMDA__multiplier''"
    and "getattr s self ''_ENIMDA__frames'' = Inr (Ref r)"
    and "getattr t self ''_ENIMDA__frames'' = Inr (Ref r)"
    and "list_objs s r = Some xs"
    and "list_objs t r = Some ys"
  shows "(\<exists>e. load resize convert img dims frame_set self fs s = Inl e
            \<and> load resize convert img dims frame_set self fs t = Inl e)
       \<or> (\<exists>app. load resize convert img dims frame_set self fs s =
                    Inr (s\<lparr>list_objs := (list_objs s)(r \<mapsto> xs @ app)\<rparr>)
            \<and> load resize convert img dims frame_set self fs t =
                    Inr (t\<lparr>list_objs := (list_objs t)(r \<mapsto> ys @ app)\<rparr>))"
  using assms
proof (induction fs arbitrary: s t xs ys)
  case Nil
  have "s = s\<lparr>list_objs := (list_objs s)(r \<mapsto> xs @ [])\<rparr>"
    using Nil.prems(4) by (simp add: fun_upd_idem)
  moreover have "t = t\<lparr>list_objs := (list_objs t)(r \<mapsto> ys @ [])\<rparr>"
    using Nil.prems(5) by (simp add: fun_upd_idem)
  ultimately show ?case by (metis load.simps(1))
next
  case (Cons frame rest)
  note sim = Cons.IH [OF Cons.prems]
  show ?case
  proof (cases "length (img_pages img) \<le> frame")
    case True
    have "s = s\<lparr>list_objs := (list_objs s)(r \<mapsto> xs @ [])\<rparr>"
      using Cons.prems(4) by (simp add: fun_upd_idem)
    moreover have "t = t\<lparr>list_objs := (list_objs t)(r \<mapsto> ys @ [])\<rparr>"
      using Cons.prems(5) by (simp add: fun_upd_idem)
    moreover from True have "load resize convert img dims frame_set self (frame # rest) s = Inr s"
      "load resize convert img dims frame_set self (frame # rest) t = Inr t" by simp_all
    ultimately show ?thesis by metis
  next
    case inside: False
    show ?thesis
    proof (cases "int frame \<in> frame_set")
      case False
      with inside sim show ?thesis by simp
    next
      case True
      show ?thesis
      proof (cases "getattr t self ''_ENIMDA__multiplier''")
        case (Inl e)
        with inside True Cons.prems(1) show ?thesis by simp
      next
        case (Inr m)
        define item where
          "item = (if m \<noteq> Float 1
                   then (case dims of
                           None \<Rightarrow> Inl UnboundLocalError
                         | Some d \<Rightarrow> Inr (convert (resize d (img_pages img ! frame))))
                   else Inr (convert (img_pages img ! frame)))"
        show ?thesis
        proof (cases item)
          case (Inl e)
          with inside True Cons.prems(1,2,3) Inr show ?thesis
            by (simp add: item_def [symmetric])
        next
          case item: (Inr x)
          define s' where "s' = s\<lparr>list_objs := (list_objs s)(r \<mapsto> xs @ [x])\<rparr>"
          define t' where "t' = t\<lparr>list_objs := (list_objs t)(r \<mapsto> ys @ [x])\<rparr>"
          have step_s: "load resize convert img dims frame_set self (frame # rest) s =
                          load resize convert img dims frame_set self rest s'"
            using inside True Cons.prems Inr item
            by (simp add: item_def [symmetric] append_to_def s'_def)
          have step_t: "load resize convert img dims frame_set self (frame # rest) t =
                          load resize convert img dims frame_set self rest t'"
            using inside True Cons.prems Inr item
            by (simp add: item_def [symmetric] append_to_def t'_def)
          have agree: "getattr s' self ''_ENIMDA__multiplier'' = getattr t' self ''_ENIMDA__multiplier''"
            "getattr s' self ''_ENIMDA__frames'' = Inr (Ref r)"
            "getattr t' self ''_ENIMDA__frames'' = Inr (Ref r)"
            "list_objs s' r = Some (xs @ [x])"
            "list_objs t' r = Some (ys @ [x])"
            using Cons.prems by (simp_all add: s'_def t'_def)
          from Cons.IH [OF agree]
          show ?thesis
          proof
            assume "\<exists>e. load resize convert img dims frame_set self rest s' = Inl e
                       \<and> load resize convert img dims frame_set self rest t' = Inl e"
            with step_s step_t show ?thesis by simp
          next
            assume "\<exists>app. load resize convert img dims frame_set self rest s' =
                        Inr (s'\<lparr>list_objs := (list_objs s')(r \<mapsto> (xs @ [x]) @ app)\<rparr>)
                      \<and> load resize convert img dims frame_set self rest t' =
                        Inr (t'\<lparr>list_objs := (list_objs t')(r \<mapsto> (ys @ [x]) @ app)\<rparr>)"
            then obtain app where
              "load resize convert img dims frame_set self rest s' =
                 Inr (s\<lparr>list_objs := (list_objs s)(r \<mapsto> xs @ (x # app))\<rparr>)"
              "load resize convert img dims frame_set self rest t' =
                 Inr (t\<lparr>list_objs := (list_objs t)(r \<mapsto> ys @ (x # app))\<rparr>)"
              by (auto simp: s'_def t'_def)
            with step_s step_t show ?thesis by metis
          qed
        qed
      qed
    qed
  qed
qed

lemma assign_multiplier_fields [simp]:
  "list_objs (assign_multiplier s self plan) = list_objs s"
  "class_dict (assign_multiplier s self plan) = class_dict s"
  "other \<noteq> self \<Longrightarrow> inst_dict (assign_multiplier s self plan) other = inst_dict s other"
  "inst_dict (assign_multiplier s self plan) self ''_ENIMDA__frames'' =
     inst_dict s self ''_ENIMDA__frames''"
  by (simp_all add: assign_multiplier_def setattr_def split: option.splits prod.splits)

lemma assign_multiplier_read:
  assumes "inst_dict s self = Map.empty" "inst_dict t self = Map.empty"
    and "class_dict s = class_dict t"
  shows "getattr (assign_multiplier s self plan) self ''_ENIMDA__multiplier'' =
         getattr (assign_multiplier t self plan) self ''_ENIMDA__multiplier''"
  using assms
  by (simp add: assign_multiplier_def setattr_def getattr_def split: option.splits prod.splits)

lemma getattr_frames:
  assumes "inst_dict s self ''_ENIMDA__frames'' = None"
    and "class_dict s ''_ENIMDA__frames'' = Some (Ref r)"
  shows "getattr s self ''_ENIMDA__frames'' = Inr (Ref r)"
  using assms by (simp add: getattr_def)

lemma frames_of_shared:
  assumes "inst_dict s self ''_ENIMDA__frames'' = None"
    and "class_dict s ''_ENIMDA__frames'' = Some (Ref r)"
    and "list_objs s r = Some xs"
  shows "frames_of s self = Inr xs"
  using assms by (simp add: frames_of_def getattr_def)

lemma init_sim:
  assumes fresh: "inst_dict s self = Map.empty" "inst_dict t self = Map.empty"
    and cls: "class_dict s = class_dict t" "class_dict t ''_ENIMDA__frames'' = Some (Ref r)"
    and objs: "list_objs s r = Some xs" "list_objs t r = Some ys"
  shows "(\<exists>e. init globals resize convert s self img size' frames rows columns = Inl e
            \<and> init globals resize convert t self img size' frames rows columns = Inl e)
       \<or> (\<exists>app plan.
            init globals resize convert s self img size' frames rows columns =
              Inr ((assign_multiplier s self plan)\<lparr>list_objs := (list_objs s)(r \<mapsto> xs @ app)\<rparr>)
          \<and> init globals resize convert t self img size' frames rows columns =
              Inr ((assign_multiplier t self plan)\<lparr>list_objs := (list_objs t)(r \<mapsto> ys @ app)\<rparr>))"
proof (cases "globals ''_ENIMDA__randoms''")
  case None
  then show ?thesis by (simp add: init_def call_global_def)
next
  case (Some select)
  show ?thesis
  proof (cases "case size' of None \<Rightarrow> Inr None | Some sz \<Rightarrow> resized img sz")
    case (Inl e)
    with Some show ?thesis by (simp add: init_def call_global_def)
  next
    case (Inr plan)
    define s' where "s' = assign_multiplier s self plan"
    define t' where "t' = assign_multiplier t self plan"
    have m: "getattr s' self ''_ENIMDA__multiplier'' = getattr t' self ''_ENIMDA__multiplier''"
      unfolding s'_def t'_def using fresh cls(1) by (rule assign_multiplier_read)
    have fs: "getattr s' self ''_ENIMDA__frames'' = Inr (Ref r)"
      unfolding s'_def using fresh(1) cls by (intro getattr_frames) simp_all
    have ft: "getattr t' self ''_ENIMDA__frames'' = Inr (Ref r)"
      unfolding t'_def using fresh(2) cls by (intro getattr_frames) simp_all
    have os: "list_objs s' r = Some xs" and ot: "list_objs t' r = Some ys"
      using objs by (simp_all add: s'_def t'_def)
    let ?load = "load resize convert img (map_option fst plan)
          (select (int (count_frames (length (img_pages img)) 0)) frames) self
          [0..<count_frames (length (img_pages img)) 0]"
    have init_s: "init globals resize convert s self img size' frames rows columns = ?load s'"
      using Inr Some by (simp add: init_def call_global_def Let_def s'_def)
    have init_t: "init globals resize convert t self img size' frames rows columns = ?load t'"
      using Inr Some by (simp add: init_def call_global_def Let_def t'_def)
    have "(\<exists>e. ?load s' = Inl e \<and> ?load t' = Inl e)
        \<or> (\<exists>app. ?load s' = Inr (s'\<lparr>list_objs := (list_objs s')(r \<mapsto> xs @ app)\<rparr>)
                \<and> ?load t' = Inr (t'\<lparr>list_objs := (list_objs t')(r \<mapsto> ys @ app)\<rparr>))"
      using m fs ft os ot by (rule load_sim)
    then show ?thesis
    proof
      assume "\<exists>e. ?load s' = Inl e \<and> ?load t' = Inl e"
      then show ?thesis unfolding init_s init_t by blast
    next
      assume "\<exists>app. ?load s' = Inr (s'\<lparr>list_objs := (list_objs s')(r \<mapsto> xs @ app)\<rparr>)
                \<and> ?load t' = Inr (t'\<lparr>list_objs := (list_objs t')(r \<mapsto> ys @ app)\<rparr>)"
      then obtain app where
        "?load s' = Inr ((assign_multiplier s self plan)\<lparr>list_objs := (list_objs s)(r \<mapsto> xs @ app)\<rparr>)"
        "?load t' = Inr ((assign_multiplier t self plan)\<lparr>list_objs := (list_objs t)(r \<mapsto> ys @ app)\<rparr>)"
        by (auto simp: s'_def t'_def)
      then show ?thesis unfolding init_s init_t by blast
    qed
  qed
qed

lemma class_body_fields [simp]:
  "list_objs class_body 0 = Some []"
  "class_dict class_body ''_ENIMDA__frames'' = Some (Ref 0)"
  "inst_dict class_body self = Map.empty"
  by (simp_all add: class_body_def)

text \<open>
  The frame list belongs to the class. Let a first instance be constructed from one
  image and a second, different instance from another, with global names under which
  both constructions run to their end. Then the second image alone would have given the
  second instance the frames \<open>own2\<close>, the first instance held \<open>own1\<close> after its own
  construction, and after both constructions each of the two instances observes
  \<open>own1 @ own2\<close>.
\<close>

lemma frames_shared_if_constructed:
  assumes distinct: "a \<noteq> b"
    and first: "init globals1 resize convert class_body a img1 size1 frames1 rows1 columns1 =
                  Inr (s1 :: 'f heap)"
    and second: "init globals2 resize convert s1 b img2 size2 frames2 rows2 columns2 = Inr s2"
  shows "\<exists>alone own1 own2.
           init globals2 resize convert class_body b img2 size2 frames2 rows2 columns2 = Inr alone
         \<and> frames_of s1 a = Inr own1 \<and> frames_of alone b = Inr own2
         \<and> frames_of s2 a = Inr (own1 @ own2) \<and> frames_of s2 b = Inr (own1 @ own2)"
proof -
  let ?c = "class_body :: 'f heap"
  have "(\<exists>e. init globals1 resize convert ?c a img1 size1 frames1 rows1 columns1 = Inl e
            \<and> init globals1 resize convert ?c a img1 size1 frames1 rows1 columns1 = Inl e)
       \<or> (\<exists>app plan.
            init globals1 resize convert ?c a img1 size1 frames1 rows1 columns1 =
              Inr ((assign_multiplier ?c a plan)\<lparr>list_objs := (list_objs ?c)(0 \<mapsto> [] @ app)\<rparr>)
          \<and> init globals1 resize convert ?c a img1 size1 frames1 rows1 columns1 =
              Inr ((assign_multiplier ?c a plan)\<lparr>list_objs := (list_objs ?c)(0 \<mapsto> [] @ app)\<rparr>))"
    by (rule init_sim) simp_all
  with first obtain own1 plan1 where
    s1: "s1 = (assign_multiplier ?c a plan1)\<lparr>list_objs := (list_objs ?c)(0 \<mapsto> own1)\<rparr>"
    by auto
  have s1_fields:
    "inst_dict s1 b = Map.empty"
    "class_dict s1 = class_dict ?c"
    "list_objs s1 0 = Some own1"
    "inst_dict s1 a ''_ENIMDA__frames'' = None"
    using distinct by (simp_all add: s1)
  have "(\<exists>e. init globals2 resize convert s1 b img2 size2 frames2 rows2 columns2 = Inl e
            \<and> init globals2 resize convert ?c b img2 size2 frames2 rows2 columns2 = Inl e)
       \<or> (\<exists>app plan.
            init globals2 resize convert s1 b img2 size2 frames2 rows2 columns2 =
              Inr ((assign_multiplier s1 b plan)\<lparr>list_objs := (list_objs s1)(0 \<mapsto> own1 @ app)\<rparr>)
          \<and> init globals2 resize convert ?c b img2 size2 frames2 rows2 columns2 =
              Inr ((assign_multiplier ?c b plan)\<lparr>list_objs := (list_objs ?c)(0 \<mapsto> [] @ app)\<rparr>))"
    by (rule init_sim) (simp_all add: s1_fields)
  with second obtain own2 plan2 where
    s2: "s2 = (assign_multiplier s1 b plan2)\<lparr>list_objs := (list_objs s1)(0 \<mapsto> own1 @ own2)\<rparr>"
    and alone: "init globals2 resize convert ?c b img2 size2 frames2 rows2 columns2 =
      Inr ((assign_multiplier ?c b plan2)\<lparr>list_objs := (list_objs ?c)(0 \<mapsto> own2)\<rparr>)"
    by auto
  have v1: "frames_of s1 a = Inr own1"
    by (rule frames_of_shared [where r = 0]) (simp_all add: s1_fields)
  have v2: "frames_of ((assign_multiplier ?c b plan2)\<lparr>list_objs := (list_objs ?c)(0 \<mapsto> own2)\<rparr>) b
            = Inr own2"
    by (rule frames_of_shared [where r = 0]) simp_all
  have v3: "frames_of s2 a = Inr (own1 @ own2)"
    using distinct by (intro frames_of_shared [where r = 0]) (simp_all add: s2 s1_fields)
  have v4: "frames_of s2 b = Inr (own1 @ own2)"
    by (rule frames_of_shared [where r = 0]) (simp_all add: s2 s1_fields)
  from alone v1 v2 v3 v4 show ?thesis by blast
qed

lemmas run = init_def call_global_def patched_globals_def module_globals_def count_frames.simps
  randoms_def class_body_def getattr_def append_to_def assign_multiplier_def frames_of_def

text \<open>
  Two such constructions, under global names that bind \<^verbatim>\<open>_ENIMDA__randoms\<close>: the
  instance at address 1 loads the one frame of \<^const>\<open>still\<close>, the instance at address 2
  the two frames of \<^const>\<open>clip\<close>, and both observe the three frames.
\<close>

lemma frames_shared_example:
  "\<exists>s1 s2.
     init (patched_globals (\<lambda>xs. xs)) (\<lambda>d p. p) (\<lambda>p. p) class_body 1 still None None (1 / 4) None =
       Inr s1
   \<and> init (patched_globals (\<lambda>xs. xs)) (\<lambda>d p. p) (\<lambda>p. p) s1 2 clip None None (1 / 4) None = Inr s2
   \<and> frames_of s1 1 = Inr [10]
   \<and> frames_of s2 1 = Inr [10, 20, 30] \<and> frames_of s2 2 = Inr [10, 20, 30]"
proof -
  define s1 :: "nat heap" where "s1 = class_body\<lparr>list_objs := [0 \<mapsto> [10]]\<rparr>"
  define s2 :: "nat heap" where "s2 = class_body\<lparr>list_objs := [0 \<mapsto> [10, 20, 30]]\<rparr>"
  have first: "init (patched_globals (\<lambda>xs. xs)) (\<lambda>d p. p) (\<lambda>p. p) class_body 1 still None None
                 (1 / 4) None = Inr s1"
    by (simp add: run still_def s1_def)
  have second: "init (patched_globals (\<lambda>xs. xs)) (\<lambda>d p. p) (\<lambda>p. p) s1 2 clip None None
                  (1 / 4) None = Inr s2"
    by (simp add: run clip_def s1_def s2_def)
  have "frames_of s1 1 = Inr [10]" "frames_of s2 1 = Inr [10, 20, 30]"
    "frames_of s2 2 = Inr [10, 20, 30]"
    by (simp_all add: frames_of_def getattr_def class_body_def s1_def s2_def)
  with first second show ?thesis by blast
qed

text \<open>
  C10. The claim is that a second construction appends its frames to the list the first
  instance holds, so that after two constructions each instance observes the frames of
  both images. The list is an attribute of the class, and a constructor that ran to its
  end would do so (\<open>frames_shared_if_constructed\<close>). With the global names the file
  binds, no construction runs to its end: the call \<^verbatim>\<open>__randoms(...)\<close> on line 61 stands
  inside the class and looks up \<^verbatim>\<open>_ENIMDA__randoms\<close>, the module binds only
  \<^verbatim>\<open>__randoms\<close>, and the constructor raises NameError before any frame is appended,
  for every image and every argument.
\<close>

theorem construction_raises:
  "init (module_globals shuffle) resize convert s self img size' frames rows columns =
     Inl NameError"
  by (simp add: init_def call_global_def module_globals_def)

end
